theory Spec2Isabelle
  imports Main "HOL-Library.Multiset"
begin

section \<open>Data model of src/common/utils.ts\<close>

text \<open>
  File contents and image buffers are byte strings. A number that the source only counts
  with or compares (\<open>count\<close>, \<open>gap\<close>, \<open>date\<close>, the loop index) is an integer here;
  \<open>gap\<close> and the argument of \<open>sleep\<close> are whole seconds.
\<close>

type_synonym bytes = string

datatype createType = Create | Emit | Import | Preview

text \<open>An element of \<open>Screenshot.fileList\<close>.\<close>

record frame =
  fullPath :: string
  buffer :: bytes
  date :: int

text \<open>A JavaScript \<open>Error\<close> with its message: what a call throws or rejects with.\<close>

datatype error = Error string

text \<open>
  What the module does to the world outside it, in the order it does it. A call of
  \<open>sleep\<close>, of the predicate handed to \<open>retry\<close> and of the Electron driver is entered
  when it is made; a call of \<open>screenshot()\<close>, of an \<open>fs\<close> function or of \<open>closeVscode\<close>
  is entered when it has completed, so one that throws or rejects leaves no entry.
  \<open>ElectronLaunch\<close> carries the executable, the variables set on top of
  \<open>process.env\<close> and the arguments.
\<close>

datatype event =
    Sleep int
  | Invoke
  | Grab
  | MkdirSync string
  | WriteFileSync string bytes
  | CloseVscode
  | Mkdtemp string
  | ElectronLaunch string "(string \<times> string) list" "string list"
  | FirstWindow

text \<open>
  The singleton \<open>screenShot\<close> (its three mutable fields) together with the trace of
  effects performed so far.
\<close>

record world =
  createType :: createType
  currentDir :: string
  fileList :: "frame list"
  trace :: "event list"

text \<open>
  The parts of Node that the module reads and that are not code of the repository:
  \<open>os.platform()\<close>, the normalisation that \<open>path.join\<close> applies to the joined string,
  \<open>path.dirname\<close>, \<open>path.resolve\<close>, the environment variable
  \<open>BUILD_ARTIFACT_STAGING_DIRECTORY\<close>, the value of
  \<open>path.resolve(__dirname, "../..")\<close>, and the file system: \<open>fsError\<close> gives the error
  with which \<open>fs.mkdirSync\<close> or \<open>fs.writeFileSync\<close> throws on an operation, if it does.
  Whether the file system refuses an operation is taken to depend on the operation
  alone.
\<close>

record node =
  platform :: string
  normalize :: "string \<Rightarrow> string"
  dirname :: "string \<Rightarrow> string"
  resolve :: "string list \<Rightarrow> string"
  staging :: "string option"
  projectRoot :: string
  fsError :: "event \<Rightarrow> error option"

definition typeMenu :: "createType \<Rightarrow> string" where
  "typeMenu t = (case t of
      Create \<Rightarrow> ''CreateTypeSpecProject''
    | Emit \<Rightarrow> ''EmitFromTypeSpec''
    | Import \<Rightarrow> ''ImportTypeSpecFromOpenAPI3''
    | Preview \<Rightarrow> ''PreviewAPIDocument'')"

section \<open>Strings and paths\<close>

definition backslash :: char where
  "backslash = CHR 0x5C"

definition digit :: "nat \<Rightarrow> char" where
  "digit d = ''0123456789'' ! d"

text \<open>The decimal numeral a template literal prints for a non-negative integer.\<close>

fun string_of_nat :: "nat \<Rightarrow> string" where
  "string_of_nat n =
     (if n < 10 then [digit n] else string_of_nat (n div 10) @ [digit (n mod 10)])"

declare string_of_nat.simps [simp del]

text \<open>\<open>s.split(c)\<close> for a one-character separator: never the empty list.\<close>

fun split :: "char \<Rightarrow> string \<Rightarrow> string list" where
  "split c [] = [[]]"
| "split c (x # xs) =
     (if x = c then [] # split c xs
      else (case split c xs of [] \<Rightarrow> [[x]] | y # ys \<Rightarrow> (x # y) # ys))"

text \<open>\<open>s.lastIndexOf(c)\<close>: the greatest index holding \<open>c\<close>, or \<open>-1\<close>.\<close>

fun lastIndexFrom :: "char \<Rightarrow> string \<Rightarrow> int \<Rightarrow> int \<Rightarrow> int" where
  "lastIndexFrom c [] i found = found"
| "lastIndexFrom c (x # xs) i found =
     lastIndexFrom c xs (i + 1) (if x = c then i else found)"

definition lastIndexOf :: "char \<Rightarrow> string \<Rightarrow> int" where
  "lastIndexOf c s = lastIndexFrom c s 0 (- 1)"

text \<open>\<open>s.substring(a)\<close> and \<open>s.substring(0, b)\<close> for indices within the string.\<close>

definition substringFrom :: "string \<Rightarrow> int \<Rightarrow> string" where
  "substringFrom s a = drop (nat a) s"

definition substringTo :: "string \<Rightarrow> int \<Rightarrow> string" where
  "substringTo s b = take (nat b) s"

definition sep :: "node \<Rightarrow> string" where
  "sep e = (if platform e = ''win32'' then [backslash] else ''/'')"

fun intercalate :: "string \<Rightarrow> string list \<Rightarrow> string" where
  "intercalate s [] = []"
| "intercalate s [x] = x"
| "intercalate s (x # y # ys) = x @ s @ intercalate s (y # ys)"

text \<open>
  \<open>path.join(...segments)\<close>: the non-empty segments are joined by the platform
  separator and the result is normalised; with nothing to join the result is \<open>.\<close>.
\<close>

definition path_join :: "node \<Rightarrow> string list \<Rightarrow> string" where
  "path_join e segments =
     (let joined = filter (\<lambda>arg. length arg > 0) segments
      in if joined = [] then ''.'' else normalize e (intercalate (sep e) joined))"

section \<open>Effects\<close>

definition emit :: "event \<Rightarrow> world \<Rightarrow> world" where
  "emit ev s = s\<lparr>trace := trace s @ [ev]\<rparr>"

definition sleep :: "int \<Rightarrow> world \<Rightarrow> world" where
  "sleep seconds s = emit (Sleep seconds) s"

text \<open>
  A step that may throw returns the error or its value, and the world it leaves. After
  a step that threw, \<open>thenDo\<close> runs nothing more: the error propagates, as it does
  through code without \<open>try\<close>.
\<close>

definition thenDo ::
  "(error + unit) \<times> world \<Rightarrow> (world \<Rightarrow> (error + 'a) \<times> world) \<Rightarrow> (error + 'a) \<times> world" where
  "thenDo r f = (case fst r of Inl err \<Rightarrow> (Inl err, snd r) | Inr u \<Rightarrow> f (snd r))"

section \<open>The class Screenshot\<close>

definition setCreateType :: "createType \<Rightarrow> world \<Rightarrow> world" where
  "setCreateType t s = s\<lparr>createType := t\<rparr>"

text \<open>
  Lines 167 to 182: the segments of one \<open>fullPath\<close> after the ordinal \<open>i\<close> has been
  put in front of the file name.
\<close>

definition prefixItem :: "node \<Rightarrow> nat \<Rightarrow> string list \<Rightarrow> string list" where
  "prefixItem e i fullPathItem =
     (let k = length fullPathItem - 1 in
      if platform e = ''win32'' then
        fullPathItem[k := string_of_nat i @ ''_'' @ fullPathItem ! k]
      else
        (let lastslashIdx = lastIndexOf (CHR ''/'') (fullPathItem ! k);
             fileName = fullPathItem ! k
         in if lastslashIdx \<noteq> - 1 then
              (let prefix = substringTo fileName (lastslashIdx + 1);
                   suffix = substringFrom fileName (lastslashIdx + 1)
               in fullPathItem[k := prefix @ string_of_nat i @ ''_'' @ suffix])
            else fullPathItem[k := string_of_nat i @ ''_'' @ fileName]))"

text \<open>The path that \<open>save\<close> writes the frame at position \<open>i\<close> to.\<close>

definition savePath :: "node \<Rightarrow> nat \<Rightarrow> string \<Rightarrow> string" where
  "savePath e i p = path_join e (prefixItem e i (split backslash p))"

text \<open>
  The \<open>for\<close> loop of \<open>save\<close>, from index \<open>i\<close> on: how it ends and the effects it has
  had by then. A throw of \<open>fs.mkdirSync\<close> or \<open>fs.writeFileSync\<close> ends the loop.
\<close>

function saveLoop :: "node \<Rightarrow> frame list \<Rightarrow> nat \<Rightarrow> (error + unit) \<times> event list" where
  "saveLoop e fl i =
     (if i < length fl then
        (let p = savePath e i (fullPath (fl ! i));
             mk = MkdirSync (dirname e p);
             wr = WriteFileSync p (buffer (fl ! i))
         in case fsError e mk of
              Some err \<Rightarrow> (Inl err, [])
            | None \<Rightarrow>
                (case fsError e wr of
                   Some err \<Rightarrow> (Inl err, [mk])
                 | None \<Rightarrow>
                     (let rest = saveLoop e fl (i + 1)
                      in (fst rest, mk # wr # snd rest))))
      else (Inr (), []))"
  by pat_completeness auto
termination
  by (relation "measure (\<lambda>(e, fl, i). length fl - i)") auto

declare saveLoop.simps [simp del]

text \<open>
  \<open>Array.prototype.sort\<close> with the comparator \<open>a.date - b.date\<close> is a stable sort,
  ascending by \<open>date\<close>, and it sorts the array in place, before the first write.
\<close>

definition save :: "node \<Rightarrow> world \<Rightarrow> (error + unit) \<times> world" where
  "save e s =
     (if length (fileList s) = 0 then (Inr (), s)
      else (let sorted = sort_key date (fileList s);
                written = saveLoop e sorted 0
            in (fst written, s\<lparr>fileList := sorted, trace := trace s @ snd written\<rparr>)))"

text \<open>
  \<open>screenShot(fileName)\<close>; \<open>img\<close> is what \<open>screenshot()\<close> resolves to, or the
  error it rejects with, and \<open>now\<close> is \<open>+new Date()\<close>, the wall clock in milliseconds.
\<close>

definition screenShot ::
  "node \<Rightarrow> string \<Rightarrow> error + bytes \<Rightarrow> int \<Rightarrow> world \<Rightarrow> (error + unit) \<times> world" where
  "screenShot e fileName img now s0 =
     (let s1 = sleep 3 s0 in
      case img of
        Inl err \<Rightarrow> (Inl err, s1)
      | Inr buf \<Rightarrow>
          (let s = emit Grab s1;
               rootDir = (case staging e of
                            None \<Rightarrow> projectRoot e
                          | Some d \<Rightarrow> if d = [] then projectRoot e else d);
               platformDir = (if platform e = ''win32'' then ''/images-windows''
                              else ''/images-linux'');
               p = path_join e
                     [rootDir, platformDir, typeMenu (createType s), currentDir s, fileName]
           in (Inr (),
               s\<lparr>fileList := fileList s @ [\<lparr>fullPath = p, buffer = buf, date = now\<rparr>]\<rparr>)))"

text \<open>
  \<open>moment().format("_HH_mm_ss")\<close>: by the documentation of the library, \<open>HH\<close>, \<open>mm\<close>
  and \<open>ss\<close> are the hour of the day (00 to 23), the minute and the second of the local
  time, two digits each. \<open>t\<close> is the local wall clock in milliseconds.
\<close>

definition twoDigits :: "nat \<Rightarrow> string" where
  "twoDigits n = [digit (n div 10), digit (n mod 10)]"

definition format_HH_mm_ss :: "int \<Rightarrow> string" where
  "format_HH_mm_ss t =
     (let secs = t div 1000
      in ''_'' @ twoDigits (nat ((secs div 3600) mod 24))
         @ ''_'' @ twoDigits (nat ((secs div 60) mod 60))
         @ ''_'' @ twoDigits (nat (secs mod 60)))"

definition setDir :: "string \<Rightarrow> int \<Rightarrow> world \<Rightarrow> world" where
  "setDir dir t s = s\<lparr>currentDir := dir @ format_HH_mm_ss t, fileList := []\<rparr>"

definition getDir :: "world \<Rightarrow> string" where
  "getDir s = typeMenu (createType s) @ ''/'' @ currentDir s"

section \<open>retry\<close>

text \<open>
  The parameter \<open>count\<close> of \<open>retry\<close> is written \<open>cnt\<close>.
  One call of the predicate \<open>fn\<close>: the promise resolves to a boolean or rejects. The
  predicate inspects the user interface and changes nothing of the module's state, so it
  is a function of the world at the moment of the call.
\<close>

datatype outcome = Returns bool | Throws error

text \<open>
  Modelled from the spec: \<open>closeVscode\<close> is imported from \<open>./commonSteps\<close>, which is
  not among the sources; the spec describes the call as the forced teardown of the
  running host application. It is one effect on the world when it completes;
  \<open>closing\<close> is the error it rejects with, if it does.
\<close>

definition closeVscode :: "error option \<Rightarrow> world \<Rightarrow> (error + unit) \<times> world" where
  "closeVscode closing s =
     (case closing of Some err \<Rightarrow> (Inl err, s) | None \<Rightarrow> (Inr (), emit CloseVscode s))"

function retry ::
  "node \<Rightarrow> int \<Rightarrow> (world \<Rightarrow> outcome) \<Rightarrow> string \<Rightarrow> int \<Rightarrow> error + bytes \<Rightarrow> int
    \<Rightarrow> error option \<Rightarrow> world \<Rightarrow> (error + unit) \<times> world" where
  "retry e cnt fn errMessage gap img now closing s =
     (if cnt > 0 then
        (let s1 = emit Invoke (sleep gap s) in
         case fn s1 of
           Throws x \<Rightarrow> (Inl x, s1)
         | Returns b \<Rightarrow>
             if b then (Inr (), s1)
             else retry e (cnt - 1) fn errMessage gap img now closing s1)
      else
        thenDo (screenShot e ''error.png'' img now s) (\<lambda>s1.
        thenDo (save e s1) (\<lambda>s2.
        thenDo (closeVscode closing s2) (\<lambda>s3.
        (Inl (Error errMessage), s3)))))"
  by pat_completeness auto
termination
  by (relation "measure (\<lambda>(e, cnt, fn, errMessage, gap, img, now, closing, s). nat cnt)") auto

declare retry.simps [simp del]

text \<open>The default value of the parameter \<open>gap\<close>.\<close>

definition defaultGap :: int where
  "defaultGap = 2"

section \<open>The launch fixture\<close>

record options =
  extensionPath :: "string option"
  workspacePath :: string
  traceMode :: "string option"

record Context =
  page :: nat
  extensionDir :: string

text \<open>
  What the test runner, the operating system and the Electron driver answer during one
  call of the launch function: \<open>inject("executablePath")\<close>, \<open>process.env.PATH\<close>,
  \<open>os.tmpdir()\<close>, the directory made by \<open>mkdtemp\<close>, and the results of
  \<open>_electron.launch\<close> and \<open>app.firstWindow()\<close>, each a handle or a rejection.
\<close>

record driver =
  executablePath :: string
  envPATH :: string
  tmpdir :: string
  mkdtempResult :: string
  launchResult :: "error + nat"
  firstWindowResult :: "error + nat"

definition delimiter :: "node \<Rightarrow> string" where
  "delimiter e = (if platform e = ''win32'' then '';'' else '':'')"

definition settingsJson :: string where
  \<open>settingsJson =
     ''{"typespec.initTemplatesUrls":[{"name":"Azure","url":"https://aka.ms/typespec/azure-init"}]}''\<close>

definition launch ::
  "node \<Rightarrow> driver \<Rightarrow> string \<Rightarrow> options \<Rightarrow> world \<Rightarrow> (error + Context) \<times> world" where
  "launch e d logPath opts s =
     (let codePath = path_join e [executablePath d, ''../bin''];
          envOverrides = [(''PATH'', codePath @ delimiter e @ envPATH d)];
          s1 = emit (Mkdtemp (path_join e [tmpdir d, ''typespec-automation''])) s;
          tempDir = mkdtempResult d;
          args = filter (\<lambda>v. v \<noteq> [])
            [''--no-sandbox'',
             ''--disable-gpu-sandbox'',
             ''--disable-updates'',
             ''--skip-welcome'',
             ''--skip-release-notes'',
             ''--disable-workspace-trust'',
             ''--extensions-dir='' @ resolve e [tempDir, ''extensions''],
             ''--user-data-dir='' @ resolve e [tempDir, ''user-data''],
             ''--folder-uri=file:'' @ resolve e [workspacePath opts]];
          s2 = emit (ElectronLaunch (executablePath d)
                 (envOverrides @ [(''VITEST_VSCODE_E2E_LOG_FILE'', logPath),
                                  (''VITEST_VSCODE_LOG'', ''verbose'')])
                 args) s1
      in case launchResult d of
           Inl err \<Rightarrow> (Inl err, s2)
         | Inr app \<Rightarrow>
             (let s3 = emit FirstWindow s2 in
              case firstWindowResult d of
                Inl err \<Rightarrow> (Inl err, s3)
              | Inr pg \<Rightarrow>
                  (let userSettingsPath =
                         path_join e [tempDir, ''user-data'', ''User'', ''settings.json''];
                       wr = WriteFileSync userSettingsPath settingsJson
                   in case fsError e wr of
                        Some err \<Rightarrow> (Inl err, s3)
                      | None \<Rightarrow>
                          (Inr \<lparr>page = pg,
                                extensionDir = path_join e [tempDir, ''extensions'']\<rparr>,
                           emit wr s3))))"

text \<open>
  The fixture itself: \<open>teardowns\<close> starts empty, \<open>use\<close> hands the launch function to
  the test body, which may call it any number of times, and afterwards every registered
  teardown runs. Nothing in the launch function adds to \<open>teardowns\<close>.
\<close>

definition launchFixture ::
  "node \<Rightarrow> driver \<Rightarrow> string
    \<Rightarrow> ((options \<Rightarrow> world \<Rightarrow> (error + Context) \<times> world) \<Rightarrow> world \<Rightarrow> world)
    \<Rightarrow> world \<Rightarrow> world" where
  "launchFixture e d logPath body s =
     (let teardowns = ([] :: (world \<Rightarrow> world) list);
          s1 = body (launch e d logPath) s
      in fold (\<lambda>teardown w. teardown w) teardowns s1)"

section \<open>Observations\<close>

text \<open>
  The effects performed between two worlds, the files among a list of effects, and the
  place a stable ascending sort by \<open>date\<close> gives to the frame at position \<open>i\<close> of a
  buffer: the number of frames with a smaller timestamp plus the number of frames with
  the same timestamp that were pushed before it.
\<close>

definition eventsSince :: "world \<Rightarrow> world \<Rightarrow> event list" where
  "eventsSince s s' = drop (length (trace s)) (trace s')"

fun writesOf :: "event list \<Rightarrow> (string \<times> bytes) list" where
  "writesOf [] = []"
| "writesOf (WriteFileSync p b # evs) = (p, b) # writesOf evs"
| "writesOf (ev # evs) = writesOf evs"

definition ordinal :: "frame list \<Rightarrow> nat \<Rightarrow> nat" where
  "ordinal fl i =
     length (filter (\<lambda>g. date g < date (fl ! i)) fl)
     + length (filter (\<lambda>g. date g = date (fl ! i)) (take i fl))"

definition earlier :: "frame list \<Rightarrow> nat \<Rightarrow> nat" where
  "earlier fl i = length (filter (\<lambda>g. date g < date (fl ! i)) fl)"

text \<open>
  The operations of the module that act on the singleton \<open>screenShot\<close>: the four
  methods that change it, and \<open>retry\<close>, whose failure path captures and flushes; the
  world each of them leaves, whether it returns or throws.
\<close>

datatype call =
    SetCreateType createType
  | Save
  | ScreenShot string "error + bytes" int
  | SetDir string int
  | Retry int "world \<Rightarrow> outcome" string int "error + bytes" int "error option"

fun perform :: "node \<Rightarrow> call \<Rightarrow> world \<Rightarrow> world" where
  "perform e (SetCreateType t) s = setCreateType t s"
| "perform e Save s = snd (save e s)"
| "perform e (ScreenShot fileName img now) s = snd (screenShot e fileName img now s)"
| "perform e (SetDir dir t) s = setDir dir t s"
| "perform e (Retry cnt fn errMessage gap img now closing) s =
     snd (retry e cnt fn errMessage gap img now closing s)"

text \<open>
  The world after \<open>k\<close> rounds of the loop of \<open>retry\<close> in which the predicate did not
  return true (it changes nothing itself, so only the trace has grown), and the three
  calls of the failure path of \<open>retry\<close>.
\<close>

definition afterAttempts :: "int \<Rightarrow> nat \<Rightarrow> world \<Rightarrow> world" where
  "afterAttempts gap k s = s\<lparr>trace := trace s @ concat (replicate k [Sleep gap, Invoke])\<rparr>"

definition failurePath ::
  "node \<Rightarrow> string \<Rightarrow> error + bytes \<Rightarrow> int \<Rightarrow> error option \<Rightarrow> world
    \<Rightarrow> (error + unit) \<times> world" where
  "failurePath e errMessage img now closing s =
     thenDo (screenShot e ''error.png'' img now s) (\<lambda>s1.
     thenDo (save e s1) (\<lambda>s2.
     thenDo (closeVscode closing s2) (\<lambda>s3.
     (Inl (Error errMessage), s3))))"

text \<open>
  The effects of a flush of the buffer \<open>fl\<close> (after the sort) in which no call throws:
  for each position, the directory made and the file written.
\<close>

definition flushOf :: "node \<Rightarrow> frame list \<Rightarrow> event list" where
  "flushOf e fl =
     concat (map (\<lambda>k. [MkdirSync (dirname e (savePath e k (fullPath (fl ! k)))),
                         WriteFileSync (savePath e k (fullPath (fl ! k))) (buffer (fl ! k))])
                 [0..<length fl])"

text \<open>
  The frame that a capture named \<open>fileName\<close> pushes when \<open>screenshot()\<close> resolves to
  \<open>buf\<close> at time \<open>now\<close>.
\<close>

definition captured :: "node \<Rightarrow> string \<Rightarrow> bytes \<Rightarrow> int \<Rightarrow> world \<Rightarrow> frame" where
  "captured e fileName buf now s =
     \<lparr>fullPath = path_join e
        [case staging e of None \<Rightarrow> projectRoot e
                         | Some d \<Rightarrow> if d = [] then projectRoot e else d,
         if platform e = ''win32'' then ''/images-windows'' else ''/images-linux'',
         typeMenu (createType s), currentDir s, fileName],
      buffer = buf, date = now\<rparr>"

text \<open>
  The number that a string of decimal digits denotes, and the shape of a path that
  \<open>path.join\<close> has produced on the platform: a directory part that is empty or ends
  with the separator, then a file name without separator; on \<open>win32\<close> no empty segment
  between backslashes, elsewhere no backslash at all.
\<close>

definition digitValue :: "char \<Rightarrow> nat" where
  "digitValue c = length (takeWhile (\<lambda>d. d \<noteq> c) ''0123456789'')"

definition decimal :: "string \<Rightarrow> nat" where
  "decimal cs = foldl (\<lambda>acc c. 10 * acc + digitValue c) 0 cs"

definition sepChar :: "node \<Rightarrow> char" where
  "sepChar e = (if platform e = ''win32'' then backslash else CHR ''/'')"

definition splitsAs :: "node \<Rightarrow> string \<Rightarrow> string \<Rightarrow> string \<Rightarrow> bool" where
  "splitsAs e p dir name =
     (p = dir @ name \<and> sepChar e \<notin> set name \<and> (dir = [] \<or> last dir = sepChar e)
      \<and> (if platform e = ''win32'' then [] \<notin> set (butlast (split backslash p))
          else backslash \<notin> set p))"

text \<open>
  Kinds of effects, and whether an effect of one kind occurs at some point of a trace
  and an effect of another kind at a later point.
\<close>

definition isLaunch :: "event \<Rightarrow> bool" where
  "isLaunch ev = (case ev of ElectronLaunch x env args \<Rightarrow> True | _ \<Rightarrow> False)"

definition isWrite :: "event \<Rightarrow> bool" where
  "isWrite ev = (case ev of WriteFileSync p b \<Rightarrow> True | _ \<Rightarrow> False)"

fun before :: "(event \<Rightarrow> bool) \<Rightarrow> (event \<Rightarrow> bool) \<Rightarrow> event list \<Rightarrow> bool" where
  "before P Q [] = False"
| "before P Q (ev # evs) = ((P ev \<and> list_ex Q evs) \<or> before P Q evs)"

text \<open>The path of the user-settings document of one launch.\<close>

definition settingsPath :: "node \<Rightarrow> driver \<Rightarrow> string" where
  "settingsPath e d = path_join e [mkdtempResult d, ''user-data'', ''User'', ''settings.json'']"

section \<open>Example inputs\<close>

text \<open>
  Two Node environments, in which normalising a path removes doubled separators, and
  worlds on which the theorems are run.
\<close>

definition exampleDirname :: "char \<Rightarrow> string \<Rightarrow> string" where
  "exampleDirname c p =
     (let k = lastIndexOf c p in if k < 0 then ''.'' else if k = 0 then [c] else take (nat k) p)"

fun squeeze :: "char \<Rightarrow> string \<Rightarrow> string" where
  "squeeze c (x # y # xs) =
     (if x = c \<and> y = c then squeeze c (y # xs) else x # squeeze c (y # xs))"
| "squeeze c xs = xs"

definition exampleLinux :: node where
  "exampleLinux = \<lparr>platform = ''linux'', normalize = squeeze (CHR ''/''),
     dirname = exampleDirname (CHR ''/''), resolve = intercalate ''/'',
     staging = None, projectRoot = ''/repo'', fsError = (\<lambda>op. None)\<rparr>"

text \<open>The same environment with a file system on which no directory can be made.\<close>

definition brokenDisk :: node where
  "brokenDisk = exampleLinux\<lparr>fsError :=
     (\<lambda>op. case op of MkdirSync p \<Rightarrow> Some (Error ''ENOTDIR'') | _ \<Rightarrow> None)\<rparr>"


definition outOfOrder :: world where
  "outOfOrder = \<lparr>createType = Create, currentDir = ''case_10_00_00'',
     fileList = [\<lparr>fullPath = ''/out/case_10_00_00/a.png'', buffer = ''A'', date = 2000\<rparr>,
                 \<lparr>fullPath = ''/out/case_10_00_00/b.png'', buffer = ''B'', date = 1000\<rparr>],
     trace = []\<rparr>"

definition sameMillisecond :: world where
  "sameMillisecond = \<lparr>createType = Create, currentDir = ''case_10_00_00'',
     fileList = [\<lparr>fullPath = ''/out/case_10_00_00/a.png'', buffer = ''A'', date = 1000\<rparr>,
                 \<lparr>fullPath = ''/out/case_10_00_00/b.png'', buffer = ''B'', date = 1000\<rparr>],
     trace = []\<rparr>"


definition freshCase :: world where
  "freshCase = \<lparr>createType = Create, currentDir = ''case_10_00_00'', fileList = [],
     trace = []\<rparr>"

definition exampleDriver :: driver where
  "exampleDriver = \<lparr>executablePath = ''/opt/vscode/code'', envPATH = ''/usr/bin'',
     tmpdir = ''/tmp'', mkdtempResult = ''/tmp/typespec-automationX1'',
     launchResult = Inr 1, firstWindowResult = Inr 2\<rparr>"

definition exampleOptions :: options where
  "exampleOptions = \<lparr>extensionPath = None, workspacePath = ''test'', traceMode = None\<rparr>"

text \<open>A test body that calls the launch function once.\<close>

definition oneLaunch ::
  "(options \<Rightarrow> world \<Rightarrow> (error + Context) \<times> world) \<Rightarrow> world \<Rightarrow> world" where
  "oneLaunch launchFn s = snd (launchFn exampleOptions s)"

section \<open>Basic facts\<close>

lemmas path_eval =
  savePath_def path_join_def prefixItem_def backslash_def lastIndexOf_def
  substringTo_def substringFrom_def sep_def string_of_nat.simps digit_def

lemma thenDo_simps [simp]:
  "thenDo (Inl err, s) f = (Inl err, s)"
  "thenDo (Inr u, s) f = f s"
  by (simp_all add: thenDo_def)

lemma emit_fields [simp]:
  "trace (emit ev s) = trace s @ [ev]"
  "fileList (emit ev s) = fileList s"
  "currentDir (emit ev s) = currentDir s"
  "createType (emit ev s) = createType s"
  by (simp_all add: emit_def)

lemma screenShot_resolved:
  "screenShot e fileName (Inr buf) now s =
     (Inr (), s\<lparr>fileList := fileList s @ [captured e fileName buf now s],
                trace := trace s @ [Sleep 3, Grab]\<rparr>)"
  by (simp add: screenShot_def Let_def sleep_def emit_def captured_def)

lemma screenShot_rejected:
  "screenShot e fileName (Inl err) now s = (Inl err, s\<lparr>trace := trace s @ [Sleep 3]\<rparr>)"
  by (simp add: screenShot_def Let_def sleep_def emit_def)

lemma length_fileList_screenShot:
  "length (fileList s) \<le> length (fileList (snd (screenShot e fileName img now s)))"
  by (cases img) (simp_all add: screenShot_resolved screenShot_rejected)

text \<open>The loop of \<open>save\<close>: its effects are calls of \<open>fs\<close>, and all of them when it returns.\<close>

lemma saveLoop_events:
  "ev \<in> set (snd (saveLoop e fl i)) \<Longrightarrow>
     (\<exists>p. ev = MkdirSync p) \<or> (\<exists>p b. ev = WriteFileSync p b)"
proof (induction e fl i rule: saveLoop.induct)
  case (1 e fl i)
  show ?case
  proof (cases "i < length fl")
    case False
    with "1.prems" show ?thesis by (subst (asm) saveLoop.simps) simp
  next
    case True
    let ?p = "savePath e i (fullPath (fl ! i))"
    let ?mk = "MkdirSync (dirname e ?p)" and ?wr = "WriteFileSync ?p (buffer (fl ! i))"
    show ?thesis
    proof (cases "fsError e ?mk")
      case (Some err)
      with "1.prems" True show ?thesis by (subst (asm) saveLoop.simps) (simp add: Let_def)
    next
      case None
      note mk = None
      show ?thesis
      proof (cases "fsError e ?wr")
        case (Some err)
        with "1.prems" True mk show ?thesis
          by (subst (asm) saveLoop.simps) (simp add: Let_def)
      next
        case None
        have "ev = ?mk \<or> ev = ?wr \<or> ev \<in> set (snd (saveLoop e fl (i + 1)))"
          using "1.prems" True mk None by (subst (asm) saveLoop.simps) (simp add: Let_def)
        then show ?thesis
          using "1.IH" [OF True refl refl refl mk None] by auto
      qed
    qed
  qed
qed

lemma saveLoop_returns:
  "fst (saveLoop e fl i) = Inr () \<Longrightarrow>
   snd (saveLoop e fl i) =
     concat (map (\<lambda>k. [MkdirSync (dirname e (savePath e k (fullPath (fl ! k)))),
                         WriteFileSync (savePath e k (fullPath (fl ! k))) (buffer (fl ! k))])
                 [i..<length fl])"
proof (induction e fl i rule: saveLoop.induct)
  case (1 e fl i)
  show ?case
  proof (cases "i < length fl")
    case False
    then show ?thesis by (subst saveLoop.simps) simp
  next
    case True
    let ?p = "savePath e i (fullPath (fl ! i))"
    let ?mk = "MkdirSync (dirname e ?p)" and ?wr = "WriteFileSync ?p (buffer (fl ! i))"
    show ?thesis
    proof (cases "fsError e ?mk")
      case (Some err)
      with "1.prems" True show ?thesis by (subst (asm) saveLoop.simps) (simp add: Let_def)
    next
      case None
      note mk = None
      show ?thesis
      proof (cases "fsError e ?wr")
        case (Some err)
        with "1.prems" True mk show ?thesis
          by (subst (asm) saveLoop.simps) (simp add: Let_def)
      next
        case None
        have "fst (saveLoop e fl (i + 1)) = Inr ()"
          using "1.prems" True mk None by (subst (asm) saveLoop.simps) (simp add: Let_def)
        then have "snd (saveLoop e fl (i + 1)) =
            concat (map (\<lambda>k. [MkdirSync (dirname e (savePath e k (fullPath (fl ! k)))),
                WriteFileSync (savePath e k (fullPath (fl ! k))) (buffer (fl ! k))])
              [i + 1..<length fl])"
          using "1.IH" [OF True refl refl refl mk None] by simp
        then show ?thesis
          using True mk None by (subst saveLoop.simps) (simp add: Let_def upt_conv_Cons)
      qed
    qed
  qed
qed

lemma saveLoop_no_refusal:
  "(\<And>op. fsError e op = None) \<Longrightarrow> fst (saveLoop e fl i) = Inr ()"
proof (induction e fl i rule: saveLoop.induct)
  case (1 e fl i)
  show ?case
  proof (cases "i < length fl")
    case False
    then show ?thesis by (subst saveLoop.simps) simp
  next
    case True
    then show ?thesis
      using "1.IH" [OF True refl refl refl "1.prems" "1.prems"] "1.prems"
      by (subst saveLoop.simps) (simp add: Let_def)
  qed
qed

lemma saveLoop_Nil: "saveLoop e [] i = (Inr (), [])"
  by (subst saveLoop.simps) simp

lemma writesOf_append: "writesOf (xs @ ys) = writesOf xs @ writesOf ys"
  by (induction xs rule: writesOf.induct) simp_all

lemma writesOf_concat_pairs:
  "writesOf (concat (map (\<lambda>k. [MkdirSync (d k), WriteFileSync (p k) (b k)]) ks))
     = map (\<lambda>k. (p k, b k)) ks"
  by (induction ks) simp_all

lemma writesOf_flushOf:
  "writesOf (flushOf e fl) =
     map (\<lambda>k. (savePath e k (fullPath (fl ! k)), buffer (fl ! k))) [0..<length fl]"
  unfolding flushOf_def by (rule writesOf_concat_pairs)

lemma flushOf_events:
  "ev \<in> set (flushOf e fl) \<Longrightarrow> (\<exists>p. ev = MkdirSync p) \<or> (\<exists>p b. ev = WriteFileSync p b)"
  unfolding flushOf_def by auto

lemma fst_save: "fst (save e s) = fst (saveLoop e (sort_key date (fileList s)) 0)"
  by (simp add: save_def Let_def saveLoop_Nil)

lemma trace_save:
  "trace (snd (save e s)) = trace s @ snd (saveLoop e (sort_key date (fileList s)) 0)"
  by (simp add: save_def Let_def saveLoop_Nil)

lemma fileList_save: "fileList (snd (save e s)) = sort_key date (fileList s)"
  by (simp add: save_def Let_def)

lemma eventsSince_append: "trace s' = trace s @ evs \<Longrightarrow> eventsSince s s' = evs"
  by (simp add: eventsSince_def)

lemma eventsSince_save:
  "eventsSince s (snd (save e s)) = snd (saveLoop e (sort_key date (fileList s)) 0)"
  by (rule eventsSince_append) (rule trace_save)

lemma save_returns:
  "fst (save e s) = Inr () \<Longrightarrow>
     eventsSince s (snd (save e s)) = flushOf e (sort_key date (fileList s))"
  unfolding eventsSince_save fst_save flushOf_def
  using saveLoop_returns [of e "sort_key date (fileList s)" 0] by simp

lemma save_no_refusal: "(\<And>op. fsError e op = None) \<Longrightarrow> fst (save e s) = Inr ()"
  unfolding fst_save by (rule saveLoop_no_refusal)

text \<open>
  A list sorted by an integer key is its elements below a key value, then those at
  it, then those above it; with stability this fixes the place of every element.
\<close>

lemma sorted_three_blocks:
  "sorted (map f xs) \<Longrightarrow>
     xs = filter (\<lambda>x. f x < k) xs @ filter (\<lambda>x. f x = k) xs @ filter (\<lambda>x. k < f x) xs"
  for f :: "'a \<Rightarrow> int"
proof (induction xs)
  case Nil
  then show ?case by simp
next
  case (Cons a xs)
  then have srt: "sorted (map f xs)" and le: "\<forall>x\<in>set xs. f a \<le> f x" by auto
  consider "f a < k" | "f a = k" | "k < f a" by linarith
  then show ?case
  proof cases
    case 1
    then show ?thesis using Cons.IH [OF srt] by simp
  next
    case 2
    with le have "filter (\<lambda>x. f x < k) xs = []" by (auto simp: filter_empty_conv)
    then show ?thesis using 2 Cons.IH [OF srt] by simp
  next
    case 3
    with le have "filter (\<lambda>x. f x < k) xs = []" "filter (\<lambda>x. f x = k) xs = []"
      by (auto simp: filter_empty_conv)
    then show ?thesis using 3 Cons.IH [OF srt] by simp
  qed
qed

lemma filter_nth_take:
  "i < length xs \<Longrightarrow> P (xs ! i) \<Longrightarrow> filter P xs ! length (filter P (take i xs)) = xs ! i"
proof -
  assume a: "i < length xs" "P (xs ! i)"
  have "xs = take i xs @ xs ! i # drop (Suc i) xs" using a(1) by (simp add: id_take_nth_drop)
  then have "filter P xs = filter P (take i xs) @ xs ! i # filter P (drop (Suc i) xs)"
    using a(2) by (metis filter.simps(2) filter_append)
  then show ?thesis by (simp add: nth_append)
qed

lemma filter_take_less:
  "i < length xs \<Longrightarrow> P (xs ! i) \<Longrightarrow> length (filter P (take i xs)) < length (filter P xs)"
proof -
  assume a: "i < length xs" "P (xs ! i)"
  have "xs = take i xs @ xs ! i # drop (Suc i) xs" using a(1) by (simp add: id_take_nth_drop)
  then have "filter P xs = filter P (take i xs) @ xs ! i # filter P (drop (Suc i) xs)"
    using a(2) by (metis filter.simps(2) filter_append)
  then show ?thesis by simp
qed

lemma length_filter_sort_key:
  "length (filter P (sort_key f xs)) = length (filter P xs)"
proof -
  have "mset (filter P (sort_key f xs)) = mset (filter P xs)" by simp
  then show ?thesis by (metis size_mset)
qed

lemma stable_position:
  assumes "i < length fl"
  shows "ordinal fl i < length fl \<and> sort_key date fl ! ordinal fl i = fl ! i"
proof -
  let ?k = "date (fl ! i)"
  let ?s = "sort_key date fl"
  let ?lt = "\<lambda>g. date g < ?k" and ?eq = "\<lambda>g. date g = ?k" and ?gt = "\<lambda>g. ?k < date g"
  let ?m = "length (filter ?eq (take i fl))"
  have blocks: "?s = filter ?lt ?s @ filter ?eq ?s @ filter ?gt ?s"
    by (rule sorted_three_blocks) (rule sorted_sort_key)
  have eq: "filter ?eq ?s = filter ?eq fl" by (rule sort_key_stable)
  have lt: "length (filter ?lt ?s) = length (filter ?lt fl)" by (rule length_filter_sort_key)
  have m: "?m < length (filter ?eq fl)" using assms by (simp add: filter_take_less)
  have at: "filter ?eq fl ! ?m = fl ! i" using assms by (simp add: filter_nth_take)
  have "?s ! ordinal fl i = (filter ?lt ?s @ filter ?eq ?s @ filter ?gt ?s) ! ordinal fl i"
    using blocks by simp
  also have "\<dots> = (filter ?eq fl @ filter ?gt ?s) ! ?m"
    using lt eq by (simp add: ordinal_def nth_append)
  also have "\<dots> = fl ! i" using m at by (simp add: nth_append)
  finally have val: "?s ! ordinal fl i = fl ! i" .
  have "length ?s = length (filter ?lt ?s) + length (filter ?eq ?s) + length (filter ?gt ?s)"
    using blocks by (metis length_append add.assoc)
  then have "ordinal fl i < length ?s" using m lt eq by (simp add: ordinal_def)
  then show ?thesis using val by simp
qed

lemma ordinal_distinct:
  assumes "distinct (map date fl)" "i < length fl"
  shows "ordinal fl i = earlier fl i"
proof -
  have "\<forall>g \<in> set (take i fl). date g \<noteq> date (fl ! i)"
  proof
    fix g assume "g \<in> set (take i fl)"
    then obtain k where k: "k < i" "g = fl ! k"
      using assms(2) by (auto simp: in_set_conv_nth)
    have ki: "k < length (map date fl)" "i < length (map date fl)" "k \<noteq> i"
      using k(1) assms(2) by simp_all
    have "map date fl ! k \<noteq> map date fl ! i"
      using assms(1) ki unfolding distinct_conv_nth by blast
    moreover have "map date fl ! k = date g" "map date fl ! i = date (fl ! i)"
      using k assms(2) by simp_all
    ultimately show "date g \<noteq> date (fl ! i)" by simp
  qed
  then have "filter (\<lambda>g. date g = date (fl ! i)) (take i fl) = []"
    by (simp add: filter_empty_conv)
  then show ?thesis by (simp add: ordinal_def earlier_def)
qed

lemma length_filter_mono:
  "(\<And>x. x \<in> set xs \<Longrightarrow> P x \<Longrightarrow> Q x) \<Longrightarrow> length (filter P xs) \<le> length (filter Q xs)"
  by (induction xs) auto

lemma length_filter_strict:
  "(\<And>x. x \<in> set xs \<Longrightarrow> P x \<Longrightarrow> Q x) \<Longrightarrow> y \<in> set xs \<Longrightarrow> Q y \<Longrightarrow> \<not> P y
     \<Longrightarrow> length (filter P xs) < length (filter Q xs)"
proof (induction xs)
  case Nil
  then show ?case by simp
next
  case (Cons a xs)
  show ?case
  proof (cases "y \<in> set xs")
    case True
    then have "length (filter P xs) < length (filter Q xs)"
      using Cons by auto
    then show ?thesis using Cons.prems(1) [of a] by auto
  next
    case False
    then have "a = y" using Cons.prems(2) by simp
    moreover have "length (filter P xs) \<le> length (filter Q xs)"
      using Cons.prems(1) by (intro length_filter_mono) auto
    ultimately show ?thesis using Cons.prems by simp
  qed
qed

lemma earlier_order:
  assumes "i < length fl" "j < length fl"
  shows "(earlier fl i < earlier fl j) = (date (fl ! i) < date (fl ! j))"
proof
  assume lt: "date (fl ! i) < date (fl ! j)"
  show "earlier fl i < earlier fl j"
    unfolding earlier_def
    by (rule length_filter_strict [where y = "fl ! i"]) (use assms lt in auto)
next
  assume lt: "earlier fl i < earlier fl j"
  show "date (fl ! i) < date (fl ! j)"
  proof (rule ccontr)
    assume "\<not> date (fl ! i) < date (fl ! j)"
    then have "earlier fl j \<le> earlier fl i"
      unfolding earlier_def by (intro length_filter_mono) auto
    with lt show False by simp
  qed
qed

lemma sort_key_twice: "sort_key f (sort_key f xs) = sort_key f xs"
  by (rule sort_key_id_if_sorted) (rule sorted_sort_key)

text \<open>The last index of a character that occurs, and of one that does not.\<close>

lemma lastIndexFrom_absent: "c \<notin> set s \<Longrightarrow> lastIndexFrom c s i found = found"
  by (induction s arbitrary: i) auto

lemma lastIndexFrom_last:
  "c \<notin> set name \<Longrightarrow> lastIndexFrom c (dir @ c # name) i found = i + int (length dir)"
  by (induction dir arbitrary: i found) (auto simp: lastIndexFrom_absent)

text \<open>Splitting at a character and joining with it.\<close>

lemma split_nonempty: "split c s \<noteq> []"
  by (induction s) (auto split: list.splits)

lemma split_no_sep: "c \<notin> set s \<Longrightarrow> split c s = [s]"
  by (induction s) auto

lemma split_append_sep: "split c (a @ c # b) = split c a @ split c b"
proof (induction a)
  case Nil
  then show ?case by simp
next
  case (Cons x a)
  obtain y ys where y: "split c a = y # ys"
    using split_nonempty [of c a] by (cases "split c a") auto
  show ?case using Cons y by simp
qed

lemma intercalate_Cons_Cons: "intercalate s ((x # y) # ys) = x # intercalate s (y # ys)"
  by (cases ys) simp_all

lemma intercalate_split: "intercalate [c] (split c s) = s"
proof (induction s)
  case Nil
  then show ?case by simp
next
  case (Cons x s)
  obtain y ys where y: "split c s = y # ys"
    using split_nonempty [of c s] by (cases "split c s") auto
  show ?case
  proof (cases "x = c")
    case True
    then show ?thesis using Cons y by simp
  next
    case False
    then have "split c (x # s) = (x # y) # ys" using y by simp
    then show ?thesis using Cons y by (simp only: intercalate_Cons_Cons)
  qed
qed

lemma intercalate_snoc: "xs \<noteq> [] \<Longrightarrow> intercalate s (xs @ [t]) = intercalate s xs @ s @ t"
proof (induction xs)
  case Nil
  then show ?case by simp
next
  case (Cons x xs)
  then show ?case by (cases xs) simp_all
qed

text \<open>
  The segments of a path of the shape \<open>path.join\<close> produces, and what joining them
  again gives when the last one has got something in front.
\<close>

lemma update_last: "xs \<noteq> [] \<Longrightarrow> xs[length xs - Suc 0 := v] = butlast xs @ [v]"
  by (cases xs rule: rev_cases) simp_all

lemma nth_last: "xs \<noteq> [] \<Longrightarrow> xs ! (length xs - Suc 0) = last xs"
  by (cases xs rule: rev_cases) simp_all

lemma windows_segments:
  assumes "p = dir @ name" and "backslash \<notin> set name"
    and "dir = [] \<or> last dir = backslash"
    and "[] \<notin> set (butlast (split backslash p))" and "pre \<noteq> []"
  shows "last (split backslash p) = name"
    and "filter (\<lambda>arg. 0 < length arg) (butlast (split backslash p) @ [pre @ name])
           = butlast (split backslash p) @ [pre @ name]"
    and "intercalate [backslash] (butlast (split backslash p) @ [pre @ name])
           = dir @ pre @ name"
proof -
  have sp: "split backslash p = (if dir = [] then [] else split backslash (butlast dir)) @ [name]"
  proof (cases "dir = []")
    case True
    then show ?thesis using assms(1,2) by (simp add: split_no_sep)
  next
    case False
    then have "dir = butlast dir @ [backslash]"
      using assms(3) by (metis append_butlast_last_id)
    then have "p = butlast dir @ backslash # name"
      using assms(1) by (metis append_Cons append_Nil append_assoc)
    then have "split backslash p = split backslash (butlast dir) @ split backslash name"
      by (simp only: split_append_sep)
    then show ?thesis using False assms(2) by (simp add: split_no_sep)
  qed
  then show "last (split backslash p) = name" by simp
  have bl: "butlast (split backslash p)
      = (if dir = [] then [] else split backslash (butlast dir))"
    using sp by simp
  have "\<forall>x \<in> set (butlast (split backslash p)). 0 < length x"
    using assms(4) by auto
  then show "filter (\<lambda>arg. 0 < length arg) (butlast (split backslash p) @ [pre @ name])
           = butlast (split backslash p) @ [pre @ name]"
    using assms(5) by (simp add: filter_id_conv)
  show "intercalate [backslash] (butlast (split backslash p) @ [pre @ name])
           = dir @ pre @ name"
  proof (cases "dir = []")
    case True
    then show ?thesis using bl by simp
  next
    case False
    then have d: "dir = butlast dir @ [backslash]"
      using assms(3) by (metis append_butlast_last_id)
    have "intercalate [backslash] (split backslash (butlast dir) @ [pre @ name])
        = butlast dir @ [backslash] @ pre @ name"
      by (simp add: intercalate_snoc split_nonempty intercalate_split)
    then show ?thesis using False bl d by (metis append_assoc)
  qed
qed

lemma posix_segment:
  assumes "p = dir @ name" and "CHR ''/'' \<notin> set name"
    and "dir = [] \<or> last dir = CHR ''/''" and "backslash \<notin> set p"
  shows "split backslash p = [p]"
    and "lastIndexOf (CHR ''/'') p = int (length dir) - 1"
proof -
  show "split backslash p = [p]" using assms(4) by (rule split_no_sep)
  show "lastIndexOf (CHR ''/'') p = int (length dir) - 1"
  proof (cases "dir = []")
    case True
    then show ?thesis using assms(1,2) by (simp add: lastIndexOf_def lastIndexFrom_absent)
  next
    case False
    then have "dir = butlast dir @ ''/''"
      using assms(3) by (metis append_butlast_last_id)
    then have "p = butlast dir @ CHR ''/'' # name"
      using assms(1) by (metis append_Cons append_Nil append_assoc)
    then have "lastIndexOf (CHR ''/'') p = int (length (butlast dir))"
      using assms(2) by (simp add: lastIndexOf_def lastIndexFrom_last)
    then show ?thesis using False by (simp add: of_nat_diff Suc_leI)
  qed
qed

text \<open>Reading decimal digits.\<close>

lemma digitValue_digit: "d < 10 \<Longrightarrow> digitValue (digit d) = d"
proof -
  assume "d < 10"
  then have "d \<in> set [0..<10]" by simp
  moreover have "[0..<10] = [0, 1, 2, 3, 4, 5, 6, 7, 8, 9 :: nat]" by code_simp
  ultimately have "d \<in> set [0, 1, 2, 3, 4, 5, 6, 7, 8, 9 :: nat]" by simp
  then show ?thesis by (auto simp: digit_def digitValue_def)
qed

lemma decimal_snoc: "decimal (cs @ [c]) = 10 * decimal cs + digitValue c"
  by (simp add: decimal_def)

text \<open>
  The time suffix of a case directory has nine characters and is determined by, and
  determines, the second of the day.
\<close>

lemma digit_inj: "a < 10 \<Longrightarrow> b < 10 \<Longrightarrow> digit a = digit b \<Longrightarrow> a = b"
proof -
  assume a: "a < 10" "b < 10" "digit a = digit b"
  have "distinct ''0123456789''" by simp
  moreover have "a < length ''0123456789''" "b < length ''0123456789''" using a by simp_all
  ultimately show "a = b" using a(3) unfolding digit_def by (simp only: nth_eq_iff_index_eq)
qed

lemma twoDigits_inj:
  assumes "a < 100" "b < 100" "twoDigits a = twoDigits b"
  shows "a = b"
proof -
  have "a div 10 < 10" "b div 10 < 10" "a mod 10 < 10" "b mod 10 < 10" using assms by simp_all
  moreover have "digit (a div 10) = digit (b div 10)" "digit (a mod 10) = digit (b mod 10)"
    using assms(3) by (simp_all add: twoDigits_def)
  ultimately have "a div 10 = b div 10" "a mod 10 = b mod 10" by (auto intro: digit_inj)
  then show ?thesis by (metis div_mult_mod_eq)
qed

lemma length_format: "length (format_HH_mm_ss t) = 9"
  by (simp add: format_HH_mm_ss_def twoDigits_def Let_def)

lemma day_seconds:
  "(x::int) mod 86400 = 3600 * ((x div 3600) mod 24) + 60 * ((x div 60) mod 60) + x mod 60"
proof -
  have "x mod 86400 = 60 * ((x div 60) mod 1440) + x mod 60"
    using zmod_zmult2_eq [where a = x and b = 60 and c = 1440] by simp
  moreover have "(x div 60) mod 1440 = 60 * ((x div 60 div 60) mod 24) + (x div 60) mod 60"
    using zmod_zmult2_eq [where a = "x div 60" and b = 60 and c = 24] by simp
  moreover have "x div 60 div 60 = x div 3600"
    using zdiv_zmult2_eq [where a = x and b = 60 and c = 60] by simp
  ultimately show ?thesis by simp
qed

lemma hour_of_day: "((x::int) div 3600) mod 24 = (x mod 86400) div 3600"
proof -
  have "x mod 86400 = 3600 * ((x div 3600) mod 24) + x mod 3600"
    using zmod_zmult2_eq [where a = x and b = 3600 and c = 24] by simp
  then have "(x mod 86400) div 3600 = (3600 * ((x div 3600) mod 24) + x mod 3600) div 3600"
    by simp
  also have "\<dots> = (x div 3600) mod 24" by simp
  finally show ?thesis by simp
qed

lemma minute_of_hour: "((x::int) div 60) mod 60 = ((x mod 86400) div 60) mod 60"
proof -
  have "x mod 86400 = 60 * ((x div 60) mod 1440) + x mod 60"
    using zmod_zmult2_eq [where a = x and b = 60 and c = 1440] by simp
  then have "(x mod 86400) div 60 = (60 * ((x div 60) mod 1440) + x mod 60) div 60" by simp
  also have "\<dots> = (x div 60) mod 1440" by simp
  finally have "((x mod 86400) div 60) mod 60 = ((x div 60) mod 1440) mod 60" by simp
  also have "\<dots> = (x div 60) mod 60" by (simp add: mod_mod_cancel)
  finally show ?thesis by simp
qed

lemma second_of_minute: "(x::int) mod 60 = (x mod 86400) mod 60"
  by (simp add: mod_mod_cancel)

lemma nat_inj: "0 \<le> a \<Longrightarrow> 0 \<le> b \<Longrightarrow> nat a = nat b \<Longrightarrow> a = b"
  by simp

lemma format_eq_iff:
  "(format_HH_mm_ss t = format_HH_mm_ss u) = ((t div 1000) mod 86400 = (u div 1000) mod 86400)"
proof
  assume eq: "(t div 1000) mod 86400 = (u div 1000) mod 86400"
  show "format_HH_mm_ss t = format_HH_mm_ss u"
    unfolding format_HH_mm_ss_def Let_def
    by (simp only: hour_of_day [of "t div 1000"] hour_of_day [of "u div 1000"]
        minute_of_hour [of "t div 1000"] minute_of_hour [of "u div 1000"]
        second_of_minute [of "t div 1000"] second_of_minute [of "u div 1000"] eq)
next
  let ?x = "t div 1000" and ?y = "u div 1000"
  assume eq: "format_HH_mm_ss t = format_HH_mm_ss u"
  then have h: "twoDigits (nat ((?x div 3600) mod 24)) = twoDigits (nat ((?y div 3600) mod 24))"
    and m: "twoDigits (nat ((?x div 60) mod 60)) = twoDigits (nat ((?y div 60) mod 60))"
    and s: "twoDigits (nat (?x mod 60)) = twoDigits (nat (?y mod 60))"
    by (simp_all add: format_HH_mm_ss_def Let_def twoDigits_def)
  have "nat ((?x div 3600) mod 24) = nat ((?y div 3600) mod 24)"
    by (rule twoDigits_inj [OF _ _ h]) simp_all
  then have h': "(?x div 3600) mod 24 = (?y div 3600) mod 24"
    by (rule nat_inj [rotated 2]) simp_all
  have "nat ((?x div 60) mod 60) = nat ((?y div 60) mod 60)"
    by (rule twoDigits_inj [OF _ _ m]) simp_all
  then have m': "(?x div 60) mod 60 = (?y div 60) mod 60"
    by (rule nat_inj [rotated 2]) simp_all
  have "nat (?x mod 60) = nat (?y mod 60)"
    by (rule twoDigits_inj [OF _ _ s]) simp_all
  then have s': "?x mod 60 = ?y mod 60"
    by (rule nat_inj [rotated 2]) simp_all
  show "?x mod 86400 = ?y mod 86400"
    by (simp only: day_seconds [of ?x] day_seconds [of ?y] h' m' s')
qed

text \<open>The loop of \<open>retry\<close> when the predicate keeps returning false.\<close>

lemma afterAttempts_0: "afterAttempts gap 0 s = s"
  by (simp add: afterAttempts_def)

lemma afterAttempts_Suc:
  "afterAttempts gap k (emit Invoke (sleep gap s)) = afterAttempts gap (Suc k) s"
  by (simp add: afterAttempts_def sleep_def emit_def)

lemma afterAttempts_fields [simp]:
  "trace (afterAttempts gap k s) = trace s @ concat (replicate k [Sleep gap, Invoke])"
  "fileList (afterAttempts gap k s) = fileList s"
  "currentDir (afterAttempts gap k s) = currentDir s"
  "createType (afterAttempts gap k s) = createType s"
  by (simp_all add: afterAttempts_def)

lemma count_attempts:
  "length (filter (\<lambda>ev. ev = Invoke) (concat (replicate k [Sleep gap, Invoke]))) = k"
  by (induction k) simp_all

text \<open>The failure path of \<open>retry\<close>, step by step.\<close>

lemma retry_nonpositive:
  "cnt \<le> 0 \<Longrightarrow> retry e cnt fn errMessage gap img now closing s
     = failurePath e errMessage img now closing s"
  by (subst retry.simps) (simp add: failurePath_def)

lemma retry_exhausted:
  "(\<And>k. k < nat cnt \<Longrightarrow> fn (afterAttempts gap (Suc k) s) = Returns False) \<Longrightarrow>
   retry e cnt fn errMessage gap img now closing s
     = failurePath e errMessage img now closing (afterAttempts gap (nat cnt) s)"
proof (induction e cnt fn errMessage gap img now closing s rule: retry.induct)
  case (1 e cnt fn errMessage gap img now closing s)
  show ?case
  proof (cases "cnt > 0")
    case False
    then show ?thesis by (simp add: retry_nonpositive afterAttempts_0)
  next
    case True
    let ?s1 = "emit Invoke (sleep gap s)"
    have s1: "?s1 = afterAttempts gap (Suc 0) s"
      using afterAttempts_Suc [of gap 0 s] by (simp add: afterAttempts_0)
    have first: "fn ?s1 = Returns False"
      using "1.prems" [of 0] True s1 by simp
    have rest: "\<And>k. k < nat (cnt - 1) \<Longrightarrow> fn (afterAttempts gap (Suc k) ?s1) = Returns False"
    proof -
      fix k assume "k < nat (cnt - 1)"
      then have "Suc k < nat cnt" using True by linarith
      then show "fn (afterAttempts gap (Suc k) ?s1) = Returns False"
        using "1.prems" [of "Suc k"] by (simp add: afterAttempts_Suc)
    qed
    have "retry e (cnt - 1) fn errMessage gap img now closing ?s1
        = failurePath e errMessage img now closing (afterAttempts gap (nat (cnt - 1)) ?s1)"
      using "1.IH" [OF True refl first _ rest] by simp
    moreover have "afterAttempts gap (nat (cnt - 1)) ?s1 = afterAttempts gap (nat cnt) s"
    proof -
      have "Suc (nat (cnt - 1)) = nat cnt" using True by linarith
      then show ?thesis by (simp add: afterAttempts_Suc)
    qed
    ultimately show ?thesis
      using True first by (subst retry.simps) (simp add: Let_def)
  qed
qed

lemma failurePath_rejected:
  "failurePath e errMessage (Inl err) now closing s = (Inl err, sleep 3 s)"
  by (simp add: failurePath_def screenShot_rejected sleep_def emit_def)

lemma failurePath_flush_throws:
  "fst (save e (snd (screenShot e ''error.png'' (Inr buf) now s))) = Inl err \<Longrightarrow>
   failurePath e errMessage (Inr buf) now closing s
     = (Inl err, snd (save e (snd (screenShot e ''error.png'' (Inr buf) now s))))"
  by (simp add: failurePath_def screenShot_resolved thenDo_def)

lemma failurePath_close_rejects:
  "fst (save e (snd (screenShot e ''error.png'' (Inr buf) now s))) = Inr () \<Longrightarrow>
   failurePath e errMessage (Inr buf) now (Some err) s
     = (Inl err, snd (save e (snd (screenShot e ''error.png'' (Inr buf) now s))))"
  by (simp add: failurePath_def screenShot_resolved thenDo_def closeVscode_def)

lemma failurePath_completes:
  "fst (save e (snd (screenShot e ''error.png'' (Inr buf) now s))) = Inr () \<Longrightarrow>
   failurePath e errMessage (Inr buf) now None s
     = (Inl (Error errMessage),
        emit CloseVscode (snd (save e (snd (screenShot e ''error.png'' (Inr buf) now s)))))"
  by (simp add: failurePath_def screenShot_resolved thenDo_def closeVscode_def)

lemma failurePath_cases:
  obtains (rejected) err where "img = Inl err"
      "failurePath e errMessage img now closing s = (Inl err, sleep 3 s)"
  | (flush) buf err where "img = Inr buf"
      "fst (save e (snd (screenShot e ''error.png'' (Inr buf) now s))) = Inl err"
      "failurePath e errMessage img now closing s
         = (Inl err, snd (save e (snd (screenShot e ''error.png'' (Inr buf) now s))))"
  | (close) buf err where "img = Inr buf" "closing = Some err"
      "fst (save e (snd (screenShot e ''error.png'' (Inr buf) now s))) = Inr ()"
      "failurePath e errMessage img now closing s
         = (Inl err, snd (save e (snd (screenShot e ''error.png'' (Inr buf) now s))))"
  | (complete) buf where "img = Inr buf" "closing = None"
      "fst (save e (snd (screenShot e ''error.png'' (Inr buf) now s))) = Inr ()"
      "failurePath e errMessage img now closing s
         = (Inl (Error errMessage),
            emit CloseVscode (snd (save e (snd (screenShot e ''error.png'' (Inr buf) now s)))))"
proof (cases img)
  case (Inl err)
  then show ?thesis using rejected failurePath_rejected by simp
next
  case (Inr buf)
  show ?thesis
  proof (cases "fst (save e (snd (screenShot e ''error.png'' (Inr buf) now s)))")
    case (Inl err)
    then show ?thesis using flush Inr failurePath_flush_throws by simp
  next
    case ok: (Inr u)
    show ?thesis
    proof (cases closing)
      case None
      then show ?thesis using complete Inr ok failurePath_completes by simp
    next
      case (Some err)
      then show ?thesis using close Inr ok failurePath_close_rejects by simp
    qed
  qed
qed

lemma failurePath_raises: "\<exists>err. fst (failurePath e errMessage img now closing s) = Inl err"
  by (cases rule: failurePath_cases [of img e errMessage now closing s]) simp_all

lemma trace_after_capture:
  "trace (snd (save e (snd (screenShot e ''error.png'' (Inr buf) now s))))
     = trace s @ [Sleep 3, Grab]
       @ snd (saveLoop e (sort_key date (fileList s @ [captured e ''error.png'' buf now s])) 0)"
  by (simp add: trace_save screenShot_resolved)

lemma failurePath_effects:
  "\<exists>evs. trace (snd (failurePath e errMessage img now closing s)) = trace s @ evs
     \<and> Invoke \<notin> set evs \<and> (\<forall>g. g \<noteq> 3 \<longrightarrow> Sleep g \<notin> set evs)"
proof (cases rule: failurePath_cases [of img e errMessage now closing s])
  case (rejected err)
  then show ?thesis by (simp add: sleep_def)
next
  case (flush buf err)
  let ?w = "snd (saveLoop e (sort_key date (fileList s @ [captured e ''error.png'' buf now s])) 0)"
  have "Invoke \<notin> set ?w" "\<forall>g. Sleep g \<notin> set ?w" using saveLoop_events by blast+
  then show ?thesis using flush(3) by (simp add: trace_after_capture)
next
  case (close buf err)
  let ?w = "snd (saveLoop e (sort_key date (fileList s @ [captured e ''error.png'' buf now s])) 0)"
  have "Invoke \<notin> set ?w" "\<forall>g. Sleep g \<notin> set ?w" using saveLoop_events by blast+
  then show ?thesis using close(4) by (simp add: trace_after_capture)
next
  case (complete buf)
  let ?w = "snd (saveLoop e (sort_key date (fileList s @ [captured e ''error.png'' buf now s])) 0)"
  have "Invoke \<notin> set ?w" "\<forall>g. Sleep g \<notin> set ?w" using saveLoop_events by blast+
  then show ?thesis using complete(4) by (simp add: trace_after_capture)
qed

lemma failurePath_keeps_frames:
  "length (fileList s) \<le> length (fileList (snd (failurePath e errMessage img now closing s)))"
  by (cases rule: failurePath_cases [of img e errMessage now closing s])
     (simp_all add: sleep_def fileList_save screenShot_resolved)

lemma failurePath_complete_events:
  assumes "fst (save e (snd (screenShot e ''error.png'' (Inr buf) now s))) = Inr ()"
  shows "trace (snd (failurePath e errMessage (Inr buf) now None s))
     = trace s @ [Sleep 3, Grab]
       @ flushOf e (sort_key date (fileList s @ [captured e ''error.png'' buf now s]))
       @ [CloseVscode]"
proof -
  let ?s1 = "snd (screenShot e ''error.png'' (Inr buf) now s)"
  have "eventsSince ?s1 (snd (save e ?s1)) = flushOf e (sort_key date (fileList ?s1))"
    using assms by (rule save_returns)
  then have "snd (saveLoop e (sort_key date (fileList ?s1)) 0)
      = flushOf e (sort_key date (fileList ?s1))"
    by (simp only: eventsSince_save)
  then show ?thesis
    using assms by (simp add: failurePath_completes trace_save screenShot_resolved)
qed

lemma retry_keeps_frames:
  "length (fileList s)
     \<le> length (fileList (snd (retry e cnt fn errMessage gap img now closing s)))"
proof (induction e cnt fn errMessage gap img now closing s rule: retry.induct)
  case (1 e cnt fn errMessage gap img now closing s)
  show ?case
  proof (cases "cnt > 0")
    case False
    then show ?thesis by (simp add: retry_nonpositive failurePath_keeps_frames)
  next
    case True
    let ?s1 = "emit Invoke (sleep gap s)"
    show ?thesis
    proof (cases "fn ?s1")
      case (Throws x)
      then show ?thesis using True by (subst retry.simps) (simp add: Let_def sleep_def)
    next
      case (Returns b)
      show ?thesis
      proof (cases b)
        case True
        then show ?thesis using Returns \<open>cnt > 0\<close>
          by (subst retry.simps) (simp add: Let_def sleep_def)
      next
        case False
        then have "length (fileList ?s1)
            \<le> length (fileList (snd (retry e (cnt - 1) fn errMessage gap img now closing ?s1)))"
          using "1.IH" [OF \<open>cnt > 0\<close> refl Returns] by simp
        then show ?thesis using Returns False \<open>cnt > 0\<close>
          by (subst retry.simps) (simp add: Let_def sleep_def)
      qed
    qed
  qed
qed

lemma captured_afterAttempts:
  "captured e fileName buf now (afterAttempts gap k s) = captured e fileName buf now s"
  by (simp add: captured_def)

text \<open>The files of a flush that returns, by the place the sort gives each frame.\<close>

lemma length_writes_save:
  "fst (save e s) = Inr () \<Longrightarrow>
     length (writesOf (eventsSince s (snd (save e s)))) = length (fileList s)"
  by (simp add: save_returns writesOf_flushOf)

lemma write_at_ordinal:
  assumes "i < length (fileList s)" and "fst (save e s) = Inr ()"
  shows "writesOf (eventsSince s (snd (save e s))) ! ordinal (fileList s) i
           = (savePath e (ordinal (fileList s) i) (fullPath (fileList s ! i)),
              buffer (fileList s ! i))"
proof -
  from stable_position [OF assms(1)]
  have lt: "ordinal (fileList s) i < length (fileList s)"
    and at: "sort_key date (fileList s) ! ordinal (fileList s) i = fileList s ! i" by simp_all
  show ?thesis
    using lt at by (simp add: save_returns [OF assms(2)] writesOf_flushOf)
qed

lemma sort_key_Nil_iff: "sort_key f xs = [] \<longleftrightarrow> xs = []"
proof
  assume "sort_key f xs = []"
  then have "length (sort_key f xs) = 0" by simp
  then show "xs = []" by (simp del: sort_key_simps)
qed simp

lemma saveLoop_mkdir_refused:
  "fl \<noteq> [] \<Longrightarrow> fsError e (MkdirSync (dirname e (savePath e 0 (fullPath (fl ! 0))))) = Some err
     \<Longrightarrow> saveLoop e fl 0 = (Inl err, [])"
  by (subst saveLoop.simps) (simp add: Let_def)

lemma eventsSince_failurePath:
  "\<exists>evs. eventsSince s (snd (failurePath e errMessage img now closing s)) = evs
     \<and> trace (snd (failurePath e errMessage img now closing s)) = trace s @ evs
     \<and> Invoke \<notin> set evs \<and> (\<forall>g. g \<noteq> 3 \<longrightarrow> Sleep g \<notin> set evs)"
  using failurePath_effects [of e errMessage img now closing s]
  by (auto simp: eventsSince_def)

text \<open>The failure path of \<open>retry\<close>, run on a fresh case in the Linux example.\<close>

lemma failurePath_freshCase:
  "failurePath exampleLinux errMessage (Inr ''img'') 5 None (afterAttempts g k freshCase)
     = (Inl (Error errMessage),
        \<lparr>createType = Create, currentDir = ''case_10_00_00'',
         fileList = [\<lparr>fullPath =
             ''/repo/images-linux/CreateTypeSpecProject/case_10_00_00/error.png'',
           buffer = ''img'', date = 5\<rparr>],
         trace = concat (replicate k [Sleep g, Invoke])
           @ [Sleep 3, Grab,
              MkdirSync ''/repo/images-linux/CreateTypeSpecProject/case_10_00_00'',
              WriteFileSync
                ''/repo/images-linux/CreateTypeSpecProject/case_10_00_00/0_error.png''
                ''img'',
              CloseVscode]\<rparr>)"
  by (simp add: failurePath_def closeVscode_def save_def screenShot_def sleep_def emit_def
      afterAttempts_def freshCase_def exampleLinux_def typeMenu_def path_eval Let_def
      saveLoop.simps exampleDirname_def)

text \<open>The effects and the result of one call of the launch function, case by case.\<close>

lemma launch_events:
  "\<exists>tmp env args.
     eventsSince s (snd (launch e d logPath opts s)) =
       (case launchResult d of
          Inl err \<Rightarrow> [Mkdtemp tmp, ElectronLaunch (executablePath d) env args]
        | Inr app \<Rightarrow>
            (case firstWindowResult d of
               Inl err \<Rightarrow> [Mkdtemp tmp, ElectronLaunch (executablePath d) env args, FirstWindow]
             | Inr pg \<Rightarrow>
                 (case fsError e (WriteFileSync (settingsPath e d) settingsJson) of
                    Some err \<Rightarrow>
                      [Mkdtemp tmp, ElectronLaunch (executablePath d) env args, FirstWindow]
                  | None \<Rightarrow>
                      [Mkdtemp tmp, ElectronLaunch (executablePath d) env args, FirstWindow,
                       WriteFileSync (settingsPath e d) settingsJson])))"
  by (simp add: launch_def Let_def eventsSince_def settingsPath_def
      split: sum.splits option.splits)

lemma launch_result:
  "fst (launch e d logPath opts s) =
       (case launchResult d of
          Inl err \<Rightarrow> Inl err
        | Inr app \<Rightarrow>
            (case firstWindowResult d of
               Inl err \<Rightarrow> Inl err
             | Inr pg \<Rightarrow>
                 (case fsError e (WriteFileSync (settingsPath e d) settingsJson) of
                    Some err \<Rightarrow> Inl err
                  | None \<Rightarrow> Inr \<lparr>page = pg,
                      extensionDir = path_join e [mkdtempResult d, ''extensions'']\<rparr>)))"
  by (simp add: launch_def Let_def settingsPath_def split: sum.splits option.splits)

lemma launchFixture_no_teardown:
  "launchFixture e d logPath body s = body (launch e d logPath) s"
  by (simp add: launchFixture_def)

section \<open>Ordered persistence of the captured frames\<close>

text \<open>
  C2. When the buffered frames have pairwise distinct timestamps, a flush that returns
  writes one file per frame, and the frame at buffer position \<open>i\<close> is written as the
  file whose ordinal prefix is the number \<open>k\<close> of frames with an earlier timestamp: for
  a frame whose path is the directory part \<open>dir\<close> followed by the file name \<open>name\<close>, the
  file written is \<open>dir\<close>, then the decimal numeral of \<open>k\<close>, an underscore and \<open>name\<close>
  (a normal path, which \<open>path.join\<close> returns as it is). So the earliest frame gets
  prefix 0, the next prefix 1, and so on, and the numeric order of the prefixes of two
  frames is the order of their timestamps. The prefix is fixed by the position after
  the sort, so it does not depend on when a write completes.
\<close>

theorem flush_prefixes_follow_timestamps:
  assumes "distinct (map date (fileList s))" and "i < length (fileList s)"
    and "fst (save e s) = Inr ()"
  shows "length (writesOf (eventsSince s (snd (save e s)))) = length (fileList s)
       \<and> earlier (fileList s) i < length (fileList s)
       \<and> writesOf (eventsSince s (snd (save e s))) ! earlier (fileList s) i
           = (savePath e (earlier (fileList s) i) (fullPath (fileList s ! i)),
              buffer (fileList s ! i))
       \<and> (\<forall>dir name. splitsAs e (fullPath (fileList s ! i)) dir name
             \<and> normalize e (dir @ string_of_nat (earlier (fileList s) i) @ ''_'' @ name)
                 = dir @ string_of_nat (earlier (fileList s) i) @ ''_'' @ name \<longrightarrow>
           writesOf (eventsSince s (snd (save e s))) ! earlier (fileList s) i
             = (dir @ string_of_nat (earlier (fileList s) i) @ ''_'' @ name,
                buffer (fileList s ! i)))
       \<and> decimal (string_of_nat (earlier (fileList s) i)) = earlier (fileList s) i
       \<and> (\<forall>j < length (fileList s).
             (earlier (fileList s) i < earlier (fileList s) j)
               = (date (fileList s ! i) < date (fileList s ! j)))"
proof -
  let ?k = "earlier (fileList s) i"
  have sp: "savePath e k p = normalize e (dir @ string_of_nat k @ ''_'' @ name)"
    if sh: "splitsAs e p dir name" for k p dir name
  proof (cases "platform e = ''win32''")
    case True
    from sh True have h: "p = dir @ name" "backslash \<notin> set name"
      "dir = [] \<or> last dir = backslash" "[] \<notin> set (butlast (split backslash p))"
      unfolding splitsAs_def sepChar_def by auto
    have pre: "string_of_nat k @ ''_'' \<noteq> []" by simp
    note w = windows_segments [OF h pre]
    have "prefixItem e k (split backslash p)
        = butlast (split backslash p) @ [(string_of_nat k @ ''_'') @ name]"
      using True w(1) by (simp add: prefixItem_def Let_def update_last nth_last split_nonempty)
    then show ?thesis
      using True w(2,3) by (simp add: savePath_def path_join_def sep_def Let_def)
  next
    case False
    from sh False have h: "p = dir @ name" "CHR ''/'' \<notin> set name"
      "dir = [] \<or> last dir = CHR ''/''" "backslash \<notin> set p"
      unfolding splitsAs_def sepChar_def by auto
    note x = posix_segment [OF h]
    have "prefixItem e k [p] = [dir @ string_of_nat k @ ''_'' @ name]"
      using False x(2) h(1)
      by (cases "dir = []")
         (simp_all add: prefixItem_def Let_def substringTo_def substringFrom_def)
    then show ?thesis using x(1) by (simp add: savePath_def path_join_def)
  qed
  have dec: "decimal (string_of_nat n) = n" for n
  proof (induction n rule: string_of_nat.induct)
    case (1 n)
    show ?case
    proof (cases "n < 10")
      case True
      then show ?thesis
        by (subst string_of_nat.simps) (simp add: decimal_def digitValue_digit)
    next
      case False
      then show ?thesis
        using "1.IH" by (subst string_of_nat.simps) (simp add: decimal_snoc digitValue_digit)
    qed
  qed
  have o: "ordinal (fileList s) i = ?k"
    using assms(1,2) by (rule ordinal_distinct)
  have lt: "?k < length (fileList s)"
    using stable_position [OF assms(2)] o by simp
  have w: "writesOf (eventsSince s (snd (save e s))) ! ?k
      = (savePath e ?k (fullPath (fileList s ! i)), buffer (fileList s ! i))"
    using write_at_ordinal [OF assms(2,3)] o by simp
  have nm: "\<forall>dir name. splitsAs e (fullPath (fileList s ! i)) dir name
      \<and> normalize e (dir @ string_of_nat ?k @ ''_'' @ name)
          = dir @ string_of_nat ?k @ ''_'' @ name \<longrightarrow>
      writesOf (eventsSince s (snd (save e s))) ! ?k
        = (dir @ string_of_nat ?k @ ''_'' @ name, buffer (fileList s ! i))"
    using w by (auto simp: sp)
  have ord: "\<forall>j < length (fileList s).
      (?k < earlier (fileList s) j) = (date (fileList s ! i) < date (fileList s ! j))"
    using assms(2) by (simp add: earlier_order)
  show ?thesis
    using length_writes_save [OF assms(3)] lt w nm ord dec [of ?k]
    by blast
qed

theorem flush_prefixes_follow_timestamps_witness:
  "distinct (map date (fileList outOfOrder)) \<and> 0 < length (fileList outOfOrder)
   \<and> fst (save exampleLinux outOfOrder) = Inr ()
   \<and> splitsAs exampleLinux ''/out/case_10_00_00/a.png'' ''/out/case_10_00_00/'' ''a.png''
   \<and> earlier (fileList outOfOrder) 0 = 1
   \<and> writesOf (eventsSince outOfOrder (snd (save exampleLinux outOfOrder))) ! 1
        = (''/out/case_10_00_00/1_a.png'', ''A'')
   \<and> decimal ''1'' = 1"
proof -
  have d: "distinct (map date (fileList outOfOrder))" by (simp add: outOfOrder_def)
  have l: "0 < length (fileList outOfOrder)" by (simp add: outOfOrder_def)
  have r: "fst (save exampleLinux outOfOrder) = Inr ()"
    by (rule save_no_refusal) (simp add: exampleLinux_def)
  have p: "fullPath (fileList outOfOrder ! 0) = ''/out/case_10_00_00/a.png''"
    by (simp add: outOfOrder_def)
  have sh: "splitsAs exampleLinux ''/out/case_10_00_00/a.png'' ''/out/case_10_00_00/'' ''a.png''"
    by (simp add: splitsAs_def sepChar_def exampleLinux_def backslash_def)
  have e: "earlier (fileList outOfOrder) 0 = 1" by (simp add: outOfOrder_def earlier_def)
  have one: "string_of_nat 1 = ''1''" by (simp add: string_of_nat.simps digit_def)
  have n: "normalize exampleLinux (''/out/case_10_00_00/'' @ string_of_nat 1 @ ''_'' @ ''a.png'')
      = ''/out/case_10_00_00/'' @ string_of_nat 1 @ ''_'' @ ''a.png''"
    unfolding one by (simp add: exampleLinux_def)
  note t = flush_prefixes_follow_timestamps [OF d l r, unfolded p e]
  have "writesOf (eventsSince outOfOrder (snd (save exampleLinux outOfOrder))) ! 1
      = (''/out/case_10_00_00/'' @ string_of_nat 1 @ ''_'' @ ''a.png'',
         buffer (fileList outOfOrder ! 0))"
    using t sh n by blast
  then have w: "writesOf (eventsSince outOfOrder (snd (save exampleLinux outOfOrder))) ! 1
      = (''/out/case_10_00_00/1_a.png'', ''A'')"
    unfolding one by (simp add: outOfOrder_def)
  have "decimal (string_of_nat 1) = 1" using t by blast
  then have "decimal ''1'' = 1" unfolding one .
  with d l r sh e w show ?thesis by blast
qed

text \<open>
  C10. Frames with equal timestamps keep the order in which they were pushed: of two
  frames at buffer positions \<open>i < j\<close> with the same timestamp, a flush that returns
  writes each under its own name with an ordinal in front, and the numeral in front of
  the one pushed first denotes the smaller number. Each capture pushes at the end of
  the buffer (\<open>screenShot_resolved\<close>), so buffer order is the order of the capture
  calls.
\<close>

theorem equal_timestamps_keep_push_order:
  assumes "i < j" and "j < length (fileList s)"
    and "date (fileList s ! i) = date (fileList s ! j)"
    and "fst (save e s) = Inr ()"
  shows "ordinal (fileList s) i < ordinal (fileList s) j
       \<and> decimal (string_of_nat (ordinal (fileList s) i))
           < decimal (string_of_nat (ordinal (fileList s) j))
       \<and> writesOf (eventsSince s (snd (save e s))) ! ordinal (fileList s) i
           = (savePath e (ordinal (fileList s) i) (fullPath (fileList s ! i)),
              buffer (fileList s ! i))
       \<and> writesOf (eventsSince s (snd (save e s))) ! ordinal (fileList s) j
           = (savePath e (ordinal (fileList s) j) (fullPath (fileList s ! j)),
              buffer (fileList s ! j))
       \<and> (\<forall>dir name. splitsAs e (fullPath (fileList s ! i)) dir name
             \<and> normalize e (dir @ string_of_nat (ordinal (fileList s) i) @ ''_'' @ name)
                 = dir @ string_of_nat (ordinal (fileList s) i) @ ''_'' @ name \<longrightarrow>
           writesOf (eventsSince s (snd (save e s))) ! ordinal (fileList s) i
             = (dir @ string_of_nat (ordinal (fileList s) i) @ ''_'' @ name,
                buffer (fileList s ! i)))
       \<and> (\<forall>dir name. splitsAs e (fullPath (fileList s ! j)) dir name
             \<and> normalize e (dir @ string_of_nat (ordinal (fileList s) j) @ ''_'' @ name)
                 = dir @ string_of_nat (ordinal (fileList s) j) @ ''_'' @ name \<longrightarrow>
           writesOf (eventsSince s (snd (save e s))) ! ordinal (fileList s) j
             = (dir @ string_of_nat (ordinal (fileList s) j) @ ''_'' @ name,
                buffer (fileList s ! j)))"
proof -
  let ?fl = "fileList s"
  let ?eq = "\<lambda>g. date g = date (?fl ! j)"
  have sp: "savePath e k p = normalize e (dir @ string_of_nat k @ ''_'' @ name)"
    if sh: "splitsAs e p dir name" for k p dir name
  proof (cases "platform e = ''win32''")
    case True
    from sh True have h: "p = dir @ name" "backslash \<notin> set name"
      "dir = [] \<or> last dir = backslash" "[] \<notin> set (butlast (split backslash p))"
      unfolding splitsAs_def sepChar_def by auto
    have pre: "string_of_nat k @ ''_'' \<noteq> []" by simp
    note w = windows_segments [OF h pre]
    have "prefixItem e k (split backslash p)
        = butlast (split backslash p) @ [(string_of_nat k @ ''_'') @ name]"
      using True w(1) by (simp add: prefixItem_def Let_def update_last nth_last split_nonempty)
    then show ?thesis
      using True w(2,3) by (simp add: savePath_def path_join_def sep_def Let_def)
  next
    case False
    from sh False have h: "p = dir @ name" "CHR ''/'' \<notin> set name"
      "dir = [] \<or> last dir = CHR ''/''" "backslash \<notin> set p"
      unfolding splitsAs_def sepChar_def by auto
    note x = posix_segment [OF h]
    have "prefixItem e k [p] = [dir @ string_of_nat k @ ''_'' @ name]"
      using False x(2) h(1)
      by (cases "dir = []")
         (simp_all add: prefixItem_def Let_def substringTo_def substringFrom_def)
    then show ?thesis using x(1) by (simp add: savePath_def path_join_def)
  qed
  have dec: "decimal (string_of_nat n) = n" for n
  proof (induction n rule: string_of_nat.induct)
    case (1 n)
    show ?case
    proof (cases "n < 10")
      case True
      then show ?thesis
        by (subst string_of_nat.simps) (simp add: decimal_def digitValue_digit)
    next
      case False
      then show ?thesis
        using "1.IH" by (subst string_of_nat.simps) (simp add: decimal_snoc digitValue_digit)
    qed
  qed
  have i: "i < length ?fl" using assms(1,2) by simp
  have "take i ?fl = take i (take j ?fl)" using assms(1) by (simp add: min_def)
  then have "length (filter ?eq (take i ?fl)) = length (filter ?eq (take i (take j ?fl)))"
    by simp
  also have "\<dots> < length (filter ?eq (take j ?fl))"
    using assms(1,2,3) by (intro filter_take_less) simp_all
  finally have lt: "ordinal ?fl i < ordinal ?fl j"
    using assms(3) by (simp add: ordinal_def)
  then have dec: "decimal (string_of_nat (ordinal ?fl i))
      < decimal (string_of_nat (ordinal ?fl j))"
    by (simp add: dec)
  note wi = write_at_ordinal [OF i assms(4)] and wj = write_at_ordinal [OF assms(2,4)]
  have ni: "\<forall>dir name. splitsAs e (fullPath (?fl ! i)) dir name
      \<and> normalize e (dir @ string_of_nat (ordinal ?fl i) @ ''_'' @ name)
          = dir @ string_of_nat (ordinal ?fl i) @ ''_'' @ name \<longrightarrow>
      writesOf (eventsSince s (snd (save e s))) ! ordinal ?fl i
        = (dir @ string_of_nat (ordinal ?fl i) @ ''_'' @ name, buffer (?fl ! i))"
    using wi by (auto simp: sp)
  have nj: "\<forall>dir name. splitsAs e (fullPath (?fl ! j)) dir name
      \<and> normalize e (dir @ string_of_nat (ordinal ?fl j) @ ''_'' @ name)
          = dir @ string_of_nat (ordinal ?fl j) @ ''_'' @ name \<longrightarrow>
      writesOf (eventsSince s (snd (save e s))) ! ordinal ?fl j
        = (dir @ string_of_nat (ordinal ?fl j) @ ''_'' @ name, buffer (?fl ! j))"
    using wj by (auto simp: sp)
  from lt dec wi wj ni nj show ?thesis by blast
qed

theorem equal_timestamps_keep_push_order_witness:
  "(0::nat) < 1 \<and> 1 < length (fileList sameMillisecond)
   \<and> date (fileList sameMillisecond ! 0) = date (fileList sameMillisecond ! 1)
   \<and> fst (save exampleLinux sameMillisecond) = Inr ()
   \<and> splitsAs exampleLinux ''/out/case_10_00_00/a.png'' ''/out/case_10_00_00/'' ''a.png''
   \<and> splitsAs exampleLinux ''/out/case_10_00_00/b.png'' ''/out/case_10_00_00/'' ''b.png''
   \<and> writesOf (eventsSince sameMillisecond (snd (save exampleLinux sameMillisecond))) ! 0
        = (''/out/case_10_00_00/0_a.png'', ''A'')
   \<and> writesOf (eventsSince sameMillisecond (snd (save exampleLinux sameMillisecond))) ! 1
        = (''/out/case_10_00_00/1_b.png'', ''B'')"
proof -
  have l: "1 < length (fileList sameMillisecond)" by (simp add: sameMillisecond_def)
  have d: "date (fileList sameMillisecond ! 0) = date (fileList sameMillisecond ! 1)"
    by (simp add: sameMillisecond_def)
  have r: "fst (save exampleLinux sameMillisecond) = Inr ()"
    by (rule save_no_refusal) (simp add: exampleLinux_def)
  have p: "fullPath (fileList sameMillisecond ! 0) = ''/out/case_10_00_00/a.png''"
    "fullPath (fileList sameMillisecond ! 1) = ''/out/case_10_00_00/b.png''"
    by (simp_all add: sameMillisecond_def)
  have sa: "splitsAs exampleLinux ''/out/case_10_00_00/a.png'' ''/out/case_10_00_00/'' ''a.png''"
    and sb: "splitsAs exampleLinux ''/out/case_10_00_00/b.png'' ''/out/case_10_00_00/'' ''b.png''"
    by (simp_all add: splitsAs_def sepChar_def exampleLinux_def backslash_def)
  have o: "ordinal (fileList sameMillisecond) 0 = 0" "ordinal (fileList sameMillisecond) 1 = 1"
    by (simp_all add: sameMillisecond_def ordinal_def)
  have num: "string_of_nat 0 = ''0''" "string_of_nat 1 = ''1''"
    by (simp_all add: string_of_nat.simps digit_def)
  have na: "normalize exampleLinux (''/out/case_10_00_00/'' @ string_of_nat 0 @ ''_'' @ ''a.png'')
      = ''/out/case_10_00_00/'' @ string_of_nat 0 @ ''_'' @ ''a.png''"
    unfolding num by (simp add: exampleLinux_def)
  have nb: "normalize exampleLinux (''/out/case_10_00_00/'' @ string_of_nat 1 @ ''_'' @ ''b.png'')
      = ''/out/case_10_00_00/'' @ string_of_nat 1 @ ''_'' @ ''b.png''"
    unfolding num by (simp add: exampleLinux_def)
  note t = equal_timestamps_keep_push_order [OF zero_less_one l d r, unfolded p o]
  have "writesOf (eventsSince sameMillisecond (snd (save exampleLinux sameMillisecond))) ! 0
      = (''/out/case_10_00_00/'' @ string_of_nat 0 @ ''_'' @ ''a.png'',
         buffer (fileList sameMillisecond ! 0))"
    using t sa na by blast
  then have wa: "writesOf (eventsSince sameMillisecond
      (snd (save exampleLinux sameMillisecond))) ! 0 = (''/out/case_10_00_00/0_a.png'', ''A'')"
    unfolding num by (simp add: sameMillisecond_def)
  have "writesOf (eventsSince sameMillisecond (snd (save exampleLinux sameMillisecond))) ! 1
      = (''/out/case_10_00_00/'' @ string_of_nat 1 @ ''_'' @ ''b.png'',
         buffer (fileList sameMillisecond ! 1))"
    using t sb nb by blast
  then have wb: "writesOf (eventsSince sameMillisecond
      (snd (save exampleLinux sameMillisecond))) ! 1 = (''/out/case_10_00_00/1_b.png'', ''B'')"
    unfolding num by (simp add: sameMillisecond_def)
  from l d r sa sb wa wb show ?thesis by simp
qed



section \<open>The frame buffer\<close>

text \<open>
  C8, as stated, fails: \<open>save\<close> sorts \<open>fileList\<close> in place, so a buffer that is not in
  timestamp order is a different list after the flush.
\<close>

theorem flush_reorders_counterexample:
  "fileList (snd (save exampleLinux outOfOrder)) \<noteq> fileList outOfOrder"
  by (simp add: fileList_save outOfOrder_def)

text \<open>
  C8, amended. A flush never removes or adds a frame: on an empty buffer it does
  nothing at all; otherwise the buffer holds the same frames afterwards, put into
  ascending timestamp order, and is unchanged when it already was in that order. A
  second flush right after the first performs the same writes again and ends the same
  way. \<open>setDir\<close> empties the buffer, and it is the only operation after which a
  non-empty buffer is empty.
\<close>

theorem flush_reorders_setDir_clears:
  "(fileList s = [] \<longrightarrow> save e s = (Inr (), s))
   \<and> mset (fileList (snd (save e s))) = mset (fileList s)
   \<and> sorted (map date (fileList (snd (save e s))))
   \<and> (sorted (map date (fileList s)) \<longrightarrow> fileList (snd (save e s)) = fileList s)
   \<and> eventsSince (snd (save e s)) (snd (save e (snd (save e s))))
       = eventsSince s (snd (save e s))
   \<and> fst (save e (snd (save e s))) = fst (save e s)
   \<and> fileList (setDir dir t s) = []
   \<and> (\<forall>c. fileList (perform e c s) = [] \<and> fileList s \<noteq> [] \<longrightarrow> (\<exists>d u. c = SetDir d u))"
proof -
  have a: "fileList s = [] \<longrightarrow> save e s = (Inr (), s)" by (simp add: save_def)
  have b: "mset (fileList (snd (save e s))) = mset (fileList s)" by (simp add: fileList_save)
  have c: "sorted (map date (fileList (snd (save e s))))" by (simp add: fileList_save)
  have d: "sorted (map date (fileList s)) \<longrightarrow> fileList (snd (save e s)) = fileList s"
    by (simp add: fileList_save sort_key_id_if_sorted)
  have f: "eventsSince (snd (save e s)) (snd (save e (snd (save e s))))
      = eventsSince s (snd (save e s))"
    by (simp add: eventsSince_save fileList_save sort_key_twice)
  have f': "fst (save e (snd (save e s))) = fst (save e s)"
    by (simp add: fst_save fileList_save sort_key_twice)
  have g: "fileList (setDir dir t s) = []" by (simp add: setDir_def)
  have h: "\<forall>c. fileList (perform e c s) = [] \<and> fileList s \<noteq> [] \<longrightarrow> (\<exists>d u. c = SetDir d u)"
  proof (intro allI impI)
    fix c assume k: "fileList (perform e c s) = [] \<and> fileList s \<noteq> []"
    show "\<exists>d u. c = SetDir d u"
    proof (cases c)
      case (SetCreateType x)
      with k show ?thesis by (simp add: setCreateType_def)
    next
      case Save
      with k show ?thesis by (simp add: fileList_save sort_key_Nil_iff del: sort_key_simps)
    next
      case (ScreenShot x y z)
      with k length_fileList_screenShot [of s e x y z] show ?thesis by simp
    next
      case (SetDir x y)
      then show ?thesis by simp
    next
      case (Retry cnt fn m gap img now closing)
      with k retry_keeps_frames [of s e cnt fn m gap img now closing] show ?thesis by simp
    qed
  qed
  from a b c d f f' g h show ?thesis by blast
qed

theorem flush_reorders_setDir_clears_witness:
  "fileList (setDir ''next'' 0 outOfOrder) = []
   \<and> save exampleLinux (setDir ''next'' 0 outOfOrder) = (Inr (), setDir ''next'' 0 outOfOrder)
   \<and> sorted (map date (fileList sameMillisecond))
   \<and> fileList (snd (save exampleLinux sameMillisecond)) = fileList sameMillisecond
   \<and> fileList (perform exampleLinux (SetDir ''next'' 0) outOfOrder) = []
   \<and> fileList outOfOrder \<noteq> []"
proof -
  have a: "fileList (setDir ''next'' 0 outOfOrder) = []" by (simp add: setDir_def)
  have b: "sorted (map date (fileList sameMillisecond))" by (simp add: sameMillisecond_def)
  have c: "fileList outOfOrder \<noteq> []" by (simp add: outOfOrder_def)
  note t1 = flush_reorders_setDir_clears
      [of "setDir ''next'' 0 outOfOrder" exampleLinux "''next''" 0]
  note t2 = flush_reorders_setDir_clears [of sameMillisecond exampleLinux "''next''" 0]
  have d: "save exampleLinux (setDir ''next'' 0 outOfOrder)
      = (Inr (), setDir ''next'' 0 outOfOrder)"
    using t1 a by blast
  have f: "fileList (snd (save exampleLinux sameMillisecond)) = fileList sameMillisecond"
    using t2 b by blast
  from a b c d f show ?thesis by simp
qed

section \<open>Case directories\<close>

text \<open>
  C6, as stated, fails: the suffix \<open>_HH_mm_ss\<close> has a resolution of one second and no
  date, so two runs of the same case started at different moments of the same second
  get the same directory name.
\<close>

theorem case_directory_collision_counterexample:
  "(0::int) \<noteq> 999
   \<and> currentDir (setDir ''case'' 0 outOfOrder) = currentDir (setDir ''case'' 999 outOfOrder)"
  by (simp add: setDir_def format_HH_mm_ss_def twoDigits_def digit_def)

text \<open>
  C6, amended. The directory name is the case name followed by the local time of day of
  the call of \<open>setDir\<close>, in whole seconds. Two runs get the same name exactly when their
  case names are equal and their start times fall into the same second of the day: runs
  with different case names never collide, and two runs of the same case name get
  distinct names whenever they start in different seconds of the day.
\<close>

theorem case_directory_equal_iff:
  "(currentDir (setDir name1 t1 s1) = currentDir (setDir name2 t2 s2))
     = (name1 = name2 \<and> (t1 div 1000) mod 86400 = (t2 div 1000) mod 86400)"
proof -
  have "(name1 @ format_HH_mm_ss t1 = name2 @ format_HH_mm_ss t2)
          = (name1 = name2 \<and> format_HH_mm_ss t1 = format_HH_mm_ss t2)"
    by (rule append_eq_append_conv) (simp add: length_format)
  then show ?thesis by (simp add: setDir_def format_eq_iff)
qed

theorem case_directory_equal_iff_witness:
  "currentDir (setDir ''case'' 0 outOfOrder) \<noteq> currentDir (setDir ''case'' 1000 outOfOrder)
   \<and> currentDir (setDir ''case'' 0 outOfOrder) = currentDir (setDir ''case'' 86400000 outOfOrder)
   \<and> currentDir (setDir ''caseA'' 0 outOfOrder) \<noteq> currentDir (setDir ''caseB'' 0 outOfOrder)"
  using case_directory_equal_iff [of "''case''" 0 outOfOrder "''case''" 1000 outOfOrder]
    case_directory_equal_iff [of "''case''" 0 outOfOrder "''case''" 86400000 outOfOrder]
    case_directory_equal_iff [of "''caseA''" 0 outOfOrder "''caseB''" 0 outOfOrder]
  by simp

section \<open>retry\<close>

text \<open>
  C1, as stated, fails: nothing in \<open>retry\<close> catches what the steps of the failure path
  throw. On a disk that refuses to make the directory the flush throws, so \<open>retry\<close>
  ends with that error, not with the caller's message, and never closes the host.
\<close>

theorem exhaustion_skips_teardown_counterexample:
  "(\<lambda>w. Returns False) (afterAttempts defaultGap 1 freshCase) = Returns False
   \<and> fst (retry brokenDisk 1 (\<lambda>w. Returns False) ''not found'' defaultGap (Inr ''img'') 5 None
          freshCase) = Inl (Error ''ENOTDIR'')
   \<and> CloseVscode \<notin> set (trace (snd (retry brokenDisk 1 (\<lambda>w. Returns False) ''not found''
          defaultGap (Inr ''img'') 5 None freshCase)))"
proof -
  let ?a = "afterAttempts defaultGap (nat 1) freshCase"
  let ?s1 = "snd (screenShot brokenDisk ''error.png'' (Inr ''img'') 5 ?a)"
  have r: "retry brokenDisk 1 (\<lambda>w. Returns False) ''not found'' defaultGap (Inr ''img'') 5 None
      freshCase = failurePath brokenDisk ''not found'' (Inr ''img'') 5 None ?a"
    by (rule retry_exhausted) simp
  have fl: "fileList ?s1 \<noteq> []" by (simp add: screenShot_resolved)
  have "saveLoop brokenDisk (sort_key date (fileList ?s1)) 0 = (Inl (Error ''ENOTDIR''), [])"
  proof (rule saveLoop_mkdir_refused)
    show "sort_key date (fileList ?s1) \<noteq> []"
      using fl by (simp add: sort_key_Nil_iff del: sort_key_simps)
    show "fsError brokenDisk (MkdirSync (dirname brokenDisk
        (savePath brokenDisk 0 (fullPath (sort_key date (fileList ?s1) ! 0)))))
        = Some (Error ''ENOTDIR'')"
      by (simp add: brokenDisk_def)
  qed
  then have sv: "fst (save brokenDisk ?s1) = Inl (Error ''ENOTDIR'')"
    and tr: "trace (snd (save brokenDisk ?s1)) = trace ?s1"
    by (simp_all add: fst_save trace_save)
  have fp: "failurePath brokenDisk ''not found'' (Inr ''img'') 5 None ?a
      = (Inl (Error ''ENOTDIR''), snd (save brokenDisk ?s1))"
    using sv by (rule failurePath_flush_throws)
  have "CloseVscode \<notin> set (trace ?s1)"
    by (simp add: screenShot_resolved freshCase_def numeral_2_eq_2)
  then show ?thesis unfolding r fp using tr by simp
qed

text \<open>
  C1, amended. When the predicate returns false at every one of the \<open>cnt\<close> attempts,
  \<open>retry\<close> takes the capture named \<open>error.png\<close>, then flushes, then closes the host
  application, in this order, and only then raises the error that carries
  \<open>errMessage\<close> unchanged, provided each of the three steps completes: the effects
  after the last attempt are then the settle delay and the screen grab, the directory
  and file writes of the flush, one file for every frame of the buffer and one for the
  new frame, and the teardown last. A step that throws ends \<open>retry\<close> with its own
  error: a rejected screen grab before anything is flushed, a throw of the flush before
  the teardown, a rejected teardown after the flush.
\<close>

theorem exhaustion_capture_flush_teardown_raise:
  assumes "\<forall>k < nat cnt. fn (afterAttempts gap (Suc k) s) = Returns False"
  shows
   "(\<forall>buf. img = Inr buf \<and> closing = None
        \<and> fst (save e (snd (screenShot e ''error.png'' (Inr buf) now
              (afterAttempts gap (nat cnt) s)))) = Inr () \<longrightarrow>
      retry e cnt fn errMessage gap img now closing s
        = (Inl (Error errMessage),
           emit CloseVscode (snd (save e (snd (screenShot e ''error.png'' (Inr buf) now
             (afterAttempts gap (nat cnt) s))))))
      \<and> eventsSince (afterAttempts gap (nat cnt) s)
           (snd (retry e cnt fn errMessage gap img now closing s))
          = [Sleep 3, Grab]
            @ flushOf e (sort_key date (fileList s @ [captured e ''error.png'' buf now s]))
            @ [CloseVscode]
      \<and> length (writesOf (flushOf e
           (sort_key date (fileList s @ [captured e ''error.png'' buf now s]))))
          = length (fileList s) + 1)
    \<and> (\<forall>err. img = Inl err \<longrightarrow>
         retry e cnt fn errMessage gap img now closing s
           = (Inl err, sleep 3 (afterAttempts gap (nat cnt) s)))
    \<and> (\<forall>buf err. img = Inr buf
          \<and> fst (save e (snd (screenShot e ''error.png'' (Inr buf) now
                (afterAttempts gap (nat cnt) s)))) = Inl err \<longrightarrow>
         retry e cnt fn errMessage gap img now closing s
           = (Inl err, snd (save e (snd (screenShot e ''error.png'' (Inr buf) now
                (afterAttempts gap (nat cnt) s))))))
    \<and> (\<forall>buf err. img = Inr buf \<and> closing = Some err
          \<and> fst (save e (snd (screenShot e ''error.png'' (Inr buf) now
                (afterAttempts gap (nat cnt) s)))) = Inr () \<longrightarrow>
         retry e cnt fn errMessage gap img now closing s
           = (Inl err, snd (save e (snd (screenShot e ''error.png'' (Inr buf) now
                (afterAttempts gap (nat cnt) s))))))"
proof -
  let ?a = "afterAttempts gap (nat cnt) s"
  have r: "retry e cnt fn errMessage gap img now closing s
             = failurePath e errMessage img now closing ?a"
    using assms by (intro retry_exhausted) simp
  have complete: "\<forall>buf. img = Inr buf \<and> closing = None
        \<and> fst (save e (snd (screenShot e ''error.png'' (Inr buf) now ?a))) = Inr () \<longrightarrow>
      failurePath e errMessage img now closing ?a
        = (Inl (Error errMessage),
           emit CloseVscode (snd (save e (snd (screenShot e ''error.png'' (Inr buf) now ?a)))))
      \<and> eventsSince ?a (snd (failurePath e errMessage img now closing ?a))
          = [Sleep 3, Grab]
            @ flushOf e (sort_key date (fileList s @ [captured e ''error.png'' buf now s]))
            @ [CloseVscode]
      \<and> length (writesOf (flushOf e
           (sort_key date (fileList s @ [captured e ''error.png'' buf now s]))))
          = length (fileList s) + 1"
  proof (intro allI impI)
    fix buf
    assume h: "img = Inr buf \<and> closing = None
        \<and> fst (save e (snd (screenShot e ''error.png'' (Inr buf) now ?a))) = Inr ()"
    then have ok: "fst (save e (snd (screenShot e ''error.png'' (Inr buf) now ?a))) = Inr ()"
      by simp
    have ev: "eventsSince ?a (snd (failurePath e errMessage (Inr buf) now None ?a))
          = [Sleep 3, Grab]
            @ flushOf e (sort_key date (fileList s @ [captured e ''error.png'' buf now s]))
            @ [CloseVscode]"
      by (rule eventsSince_append)
         (simp add: failurePath_complete_events [OF ok] captured_afterAttempts)
    show "failurePath e errMessage img now closing ?a
        = (Inl (Error errMessage),
           emit CloseVscode (snd (save e (snd (screenShot e ''error.png'' (Inr buf) now ?a)))))
      \<and> eventsSince ?a (snd (failurePath e errMessage img now closing ?a))
          = [Sleep 3, Grab]
            @ flushOf e (sort_key date (fileList s @ [captured e ''error.png'' buf now s]))
            @ [CloseVscode]
      \<and> length (writesOf (flushOf e
           (sort_key date (fileList s @ [captured e ''error.png'' buf now s]))))
          = length (fileList s) + 1"
      using h ev failurePath_completes [OF ok] by (simp add: writesOf_flushOf)
  qed
  have rejected: "\<forall>err. img = Inl err \<longrightarrow>
      failurePath e errMessage img now closing ?a = (Inl err, sleep 3 ?a)"
    by (simp add: failurePath_rejected)
  have flush: "\<forall>buf err. img = Inr buf
        \<and> fst (save e (snd (screenShot e ''error.png'' (Inr buf) now ?a))) = Inl err \<longrightarrow>
      failurePath e errMessage img now closing ?a
        = (Inl err, snd (save e (snd (screenShot e ''error.png'' (Inr buf) now ?a))))"
    by (auto simp: failurePath_flush_throws)
  have close: "\<forall>buf err. img = Inr buf \<and> closing = Some err
        \<and> fst (save e (snd (screenShot e ''error.png'' (Inr buf) now ?a))) = Inr () \<longrightarrow>
      failurePath e errMessage img now closing ?a
        = (Inl err, snd (save e (snd (screenShot e ''error.png'' (Inr buf) now ?a))))"
    by (auto simp: failurePath_close_rejects)
  show ?thesis unfolding r using complete rejected flush close by blast
qed

theorem exhaustion_capture_flush_teardown_raise_witness:
  "(\<lambda>w. Returns (10 < length (trace w))) (afterAttempts defaultGap 1 freshCase)
       = Returns False
   \<and> (\<lambda>w. Returns (10 < length (trace w))) (afterAttempts defaultGap 2 freshCase)
       = Returns False
   \<and> fst (save exampleLinux (snd (screenShot exampleLinux ''error.png'' (Inr ''img'') 5
          (afterAttempts defaultGap 2 freshCase)))) = Inr ()
   \<and> retry exampleLinux 2 (\<lambda>w. Returns (10 < length (trace w))) ''not found''
         defaultGap (Inr ''img'') 5 None freshCase
       = (Inl (Error ''not found''),
          \<lparr>createType = Create, currentDir = ''case_10_00_00'',
            fileList = [\<lparr>fullPath =
                ''/repo/images-linux/CreateTypeSpecProject/case_10_00_00/error.png'',
              buffer = ''img'', date = 5\<rparr>],
            trace = [Sleep 2, Invoke, Sleep 2, Invoke, Sleep 3, Grab,
              MkdirSync ''/repo/images-linux/CreateTypeSpecProject/case_10_00_00'',
              WriteFileSync
                ''/repo/images-linux/CreateTypeSpecProject/case_10_00_00/0_error.png''
                ''img'',
              CloseVscode]\<rparr>)"
proof -
  let ?fn = "\<lambda>w. Returns (10 < length (trace w))"
  let ?a = "afterAttempts defaultGap (nat 2) freshCase"
  have len: "\<And>k. length (concat (replicate k [Sleep defaultGap, Invoke])) = 2 * k"
    by (simp add: length_concat sum_list_replicate)
  have h: "\<forall>k < nat 2. ?fn (afterAttempts defaultGap (Suc k) freshCase) = Returns False"
    by (simp add: len freshCase_def del: replicate.simps)
  have a: "?fn (afterAttempts defaultGap 1 freshCase) = Returns False"
    "?fn (afterAttempts defaultGap 2 freshCase) = Returns False"
    by (simp_all add: len freshCase_def del: replicate.simps)
  have two: "concat (replicate (nat 2) [Sleep defaultGap, Invoke])
      = [Sleep 2, Invoke, Sleep 2, Invoke]"
    by (simp add: defaultGap_def numeral_2_eq_2)
  have ok: "fst (save exampleLinux (snd (screenShot exampleLinux ''error.png'' (Inr ''img'') 5
      ?a))) = Inr ()"
    by (rule save_no_refusal) (simp add: exampleLinux_def)
  note t = exhaustion_capture_flush_teardown_raise [OF h, of "Inr ''img''" None exampleLinux 5
      "''not found''"]
  have "retry exampleLinux 2 ?fn ''not found'' defaultGap (Inr ''img'') 5 None freshCase
      = (Inl (Error ''not found''),
         emit CloseVscode (snd (save exampleLinux
           (snd (screenShot exampleLinux ''error.png'' (Inr ''img'') 5 ?a)))))"
    using t ok by blast
  also have "\<dots> = failurePath exampleLinux ''not found'' (Inr ''img'') 5 None ?a"
    using failurePath_completes [OF ok] by simp
  finally have r: "retry exampleLinux 2 ?fn ''not found'' defaultGap (Inr ''img'') 5 None
      freshCase = failurePath exampleLinux ''not found'' (Inr ''img'') 5 None ?a" .
  have n2: "nat 2 = 2" by simp
  show ?thesis
    unfolding r failurePath_freshCase two using a ok by (simp add: n2)
qed

text \<open>
  C3, as stated, fails: when the screen grab of the failure path is rejected, the
  error raised is that rejection, not the caller's message.
\<close>

theorem always_false_other_message_counterexample:
  "(0::int) < 1
   \<and> fst (retry exampleLinux 1 (\<lambda>w. Returns False) ''not found'' defaultGap
          (Inl (Error ''no display'')) 5 None freshCase) = Inl (Error ''no display'')
   \<and> Error ''no display'' \<noteq> Error ''not found''"
proof -
  have "retry exampleLinux 1 (\<lambda>w. Returns False) ''not found'' defaultGap
      (Inl (Error ''no display'')) 5 None freshCase
      = failurePath exampleLinux ''not found'' (Inl (Error ''no display'')) 5 None
          (afterAttempts defaultGap (nat 1) freshCase)"
    by (rule retry_exhausted) simp
  then show ?thesis by (simp add: failurePath_rejected)
qed

text \<open>
  C3, amended. With a positive budget \<open>n\<close> and a predicate that always returns false,
  \<open>retry\<close> performs \<open>n\<close> rounds, each one wait of \<open>gap\<close> followed by one call of the
  predicate, then the failure path, which calls the predicate no more, and it always
  raises an error: the one with the message \<open>errMessage\<close> when the capture, the flush
  and the teardown of the failure path complete.
\<close>

theorem always_false_makes_exactly_n_attempts:
  assumes "0 < n" and "\<forall>w. fn w = Returns False"
  shows
   "take (2 * nat n) (eventsSince s (snd (retry e n fn errMessage gap img now closing s)))
       = concat (replicate (nat n) [Sleep gap, Invoke])
    \<and> length (filter (\<lambda>ev. ev = Invoke)
         (eventsSince s (snd (retry e n fn errMessage gap img now closing s)))) = nat n
    \<and> (\<exists>err. fst (retry e n fn errMessage gap img now closing s) = Inl err)
    \<and> (\<forall>buf. img = Inr buf \<and> closing = None
          \<and> fst (save e (snd (screenShot e ''error.png'' (Inr buf) now
                (afterAttempts gap (nat n) s)))) = Inr () \<longrightarrow>
        fst (retry e n fn errMessage gap img now closing s) = Inl (Error errMessage)
        \<and> eventsSince s (snd (retry e n fn errMessage gap img now closing s))
            = concat (replicate (nat n) [Sleep gap, Invoke])
              @ [Sleep 3, Grab]
              @ flushOf e (sort_key date (fileList s @ [captured e ''error.png'' buf now s]))
              @ [CloseVscode])"
proof -
  let ?a = "afterAttempts gap (nat n) s"
  let ?rounds = "concat (replicate (nat n) [Sleep gap, Invoke])"
  have r: "retry e n fn errMessage gap img now closing s
             = failurePath e errMessage img now closing ?a"
    using assms(2) by (intro retry_exhausted) simp
  obtain evs where evs: "trace (snd (failurePath e errMessage img now closing ?a))
      = trace ?a @ evs" and inv: "Invoke \<notin> set evs"
    using failurePath_effects [of e errMessage img now closing ?a] by blast
  have ev: "eventsSince s (snd (failurePath e errMessage img now closing ?a)) = ?rounds @ evs"
    by (rule eventsSince_append) (simp add: evs)
  have len: "length ?rounds = 2 * nat n"
    by (simp add: length_concat sum_list_replicate)
  have a: "take (2 * nat n) (?rounds @ evs) = ?rounds" using len by simp
  have "filter (\<lambda>ev. ev = Invoke) evs = []" using inv by (auto simp: filter_empty_conv)
  then have b: "length (filter (\<lambda>ev. ev = Invoke) (?rounds @ evs)) = nat n"
    by (simp add: count_attempts)
  have c: "\<exists>err. fst (failurePath e errMessage img now closing ?a) = Inl err"
    by (rule failurePath_raises)
  have d: "\<forall>buf. img = Inr buf \<and> closing = None
          \<and> fst (save e (snd (screenShot e ''error.png'' (Inr buf) now ?a))) = Inr () \<longrightarrow>
        fst (failurePath e errMessage img now closing ?a) = Inl (Error errMessage)
        \<and> ?rounds @ evs = ?rounds @ [Sleep 3, Grab]
              @ flushOf e (sort_key date (fileList s @ [captured e ''error.png'' buf now s]))
              @ [CloseVscode]"
  proof (intro allI impI)
    fix buf
    assume h: "img = Inr buf \<and> closing = None
          \<and> fst (save e (snd (screenShot e ''error.png'' (Inr buf) now ?a))) = Inr ()"
    then have ok: "fst (save e (snd (screenShot e ''error.png'' (Inr buf) now ?a))) = Inr ()"
      by simp
    have "trace ?a @ evs = trace ?a @ [Sleep 3, Grab]
        @ flushOf e (sort_key date (fileList s @ [captured e ''error.png'' buf now s]))
        @ [CloseVscode]"
      using evs h failurePath_complete_events [OF ok, of errMessage]
      by (simp add: captured_afterAttempts)
    then have "evs = [Sleep 3, Grab]
        @ flushOf e (sort_key date (fileList s @ [captured e ''error.png'' buf now s]))
        @ [CloseVscode]"
      by simp
    then show "fst (failurePath e errMessage img now closing ?a) = Inl (Error errMessage)
        \<and> ?rounds @ evs = ?rounds @ [Sleep 3, Grab]
              @ flushOf e (sort_key date (fileList s @ [captured e ''error.png'' buf now s]))
              @ [CloseVscode]"
      using h failurePath_completes [OF ok, of errMessage] by simp
  qed
  show ?thesis unfolding r ev using a b c d by blast
qed

theorem always_false_makes_exactly_n_attempts_witness:
  "(0::int) < 3 \<and> (\<forall>w. (\<lambda>w. Returns False) w = Returns False)
   \<and> fst (save exampleLinux (snd (screenShot exampleLinux ''error.png'' (Inr ''img'') 5
          (afterAttempts defaultGap 3 freshCase)))) = Inr ()
   \<and> fst (retry exampleLinux 3 (\<lambda>w. Returns False) ''not found'' defaultGap (Inr ''img'') 5
          None freshCase) = Inl (Error ''not found'')
   \<and> length (filter (\<lambda>ev. ev = Invoke) (eventsSince freshCase
          (snd (retry exampleLinux 3 (\<lambda>w. Returns False) ''not found'' defaultGap
            (Inr ''img'') 5 None freshCase)))) = 3"
proof -
  have p: "(0::int) < 3" by simp
  have h: "\<forall>w. (\<lambda>w. Returns False) w = Returns False" by simp
  have n3: "nat 3 = 3" by simp
  have ok: "fst (save exampleLinux (snd (screenShot exampleLinux ''error.png'' (Inr ''img'') 5
      (afterAttempts defaultGap (nat 3) freshCase)))) = Inr ()"
    by (rule save_no_refusal) (simp add: exampleLinux_def)
  note t = always_false_makes_exactly_n_attempts [OF p h, of freshCase exampleLinux
      "''not found''" defaultGap "Inr ''img''" 5 None]
  have a: "fst (retry exampleLinux 3 (\<lambda>w. Returns False) ''not found'' defaultGap (Inr ''img'')
      5 None freshCase) = Inl (Error ''not found'')"
    using t ok by blast
  have c: "length (filter (\<lambda>ev. ev = Invoke) (eventsSince freshCase
      (snd (retry exampleLinux 3 (\<lambda>w. Returns False) ''not found'' defaultGap
        (Inr ''img'') 5 None freshCase)))) = nat 3"
    using t by blast
  from a c ok show ?thesis by (simp add: n3)
qed

text \<open>
  C4, as stated, fails: with a budget of zero the loop body never runs, so there is no
  wait of the poll interval at all; the only wait is the fixed settle delay of three
  seconds inside the capture.
\<close>

theorem zero_budget_waits_no_interval_counterexample:
  "Sleep defaultGap \<notin> set (eventsSince freshCase
      (snd (retry exampleLinux 0 (\<lambda>w. Returns False) ''not found'' defaultGap (Inr ''img'') 5
             None freshCase)))"
proof -
  obtain evs where "eventsSince freshCase (snd (failurePath exampleLinux ''not found''
      (Inr ''img'') 5 None freshCase)) = evs" and "\<forall>g. g \<noteq> 3 \<longrightarrow> Sleep g \<notin> set evs"
    using eventsSince_failurePath by blast
  then show ?thesis
    unfolding retry_nonpositive [of 0, simplified] by (simp add: defaultGap_def)
qed

text \<open>
  C4, amended. With a budget of zero or a negative budget \<open>retry\<close> never calls the
  predicate and never waits the poll interval: it takes the failure path at once (the
  capture with its own settle delay of three seconds, the flush, the teardown) and
  always raises an error, the one with the message \<open>errMessage\<close> when these three
  steps complete.
\<close>

theorem nonpositive_budget_fails_without_waiting:
  assumes "cnt \<le> 0"
  shows
   "retry e cnt fn errMessage gap img now closing s
       = thenDo (screenShot e ''error.png'' img now s) (\<lambda>s1.
         thenDo (save e s1) (\<lambda>s2.
         thenDo (closeVscode closing s2) (\<lambda>s3.
         (Inl (Error errMessage), s3))))
    \<and> Invoke \<notin> set (eventsSince s (snd (retry e cnt fn errMessage gap img now closing s)))
    \<and> (gap \<noteq> 3 \<longrightarrow>
         Sleep gap \<notin> set (eventsSince s (snd (retry e cnt fn errMessage gap img now closing s))))
    \<and> (\<exists>err. fst (retry e cnt fn errMessage gap img now closing s) = Inl err)
    \<and> (\<forall>buf. img = Inr buf \<and> closing = None
          \<and> fst (save e (snd (screenShot e ''error.png'' (Inr buf) now s))) = Inr () \<longrightarrow>
        retry e cnt fn errMessage gap img now closing s
          = (Inl (Error errMessage),
             emit CloseVscode (snd (save e (snd (screenShot e ''error.png'' (Inr buf) now s)))))
        \<and> eventsSince s (snd (retry e cnt fn errMessage gap img now closing s))
            = [Sleep 3, Grab]
              @ flushOf e (sort_key date (fileList s @ [captured e ''error.png'' buf now s]))
              @ [CloseVscode])"
proof -
  have r: "retry e cnt fn errMessage gap img now closing s
             = failurePath e errMessage img now closing s"
    using assms by (rule retry_nonpositive)
  obtain evs where ev: "eventsSince s (snd (failurePath e errMessage img now closing s)) = evs"
    and inv: "Invoke \<notin> set evs" and sl: "\<forall>g. g \<noteq> 3 \<longrightarrow> Sleep g \<notin> set evs"
    using eventsSince_failurePath by blast
  have a: "failurePath e errMessage img now closing s
       = thenDo (screenShot e ''error.png'' img now s) (\<lambda>s1.
         thenDo (save e s1) (\<lambda>s2.
         thenDo (closeVscode closing s2) (\<lambda>s3.
         (Inl (Error errMessage), s3))))"
    by (simp add: failurePath_def)
  have c: "\<exists>err. fst (failurePath e errMessage img now closing s) = Inl err"
    by (rule failurePath_raises)
  have d: "\<forall>buf. img = Inr buf \<and> closing = None
          \<and> fst (save e (snd (screenShot e ''error.png'' (Inr buf) now s))) = Inr () \<longrightarrow>
        failurePath e errMessage img now closing s
          = (Inl (Error errMessage),
             emit CloseVscode (snd (save e (snd (screenShot e ''error.png'' (Inr buf) now s)))))
        \<and> eventsSince s (snd (failurePath e errMessage img now closing s))
            = [Sleep 3, Grab]
              @ flushOf e (sort_key date (fileList s @ [captured e ''error.png'' buf now s]))
              @ [CloseVscode]"
  proof (intro allI impI)
    fix buf
    assume h: "img = Inr buf \<and> closing = None
          \<and> fst (save e (snd (screenShot e ''error.png'' (Inr buf) now s))) = Inr ()"
    then have ok: "fst (save e (snd (screenShot e ''error.png'' (Inr buf) now s))) = Inr ()"
      by simp
    have "eventsSince s (snd (failurePath e errMessage (Inr buf) now None s))
        = [Sleep 3, Grab]
          @ flushOf e (sort_key date (fileList s @ [captured e ''error.png'' buf now s]))
          @ [CloseVscode]"
      by (rule eventsSince_append) (simp add: failurePath_complete_events [OF ok])
    then show "failurePath e errMessage img now closing s
          = (Inl (Error errMessage),
             emit CloseVscode (snd (save e (snd (screenShot e ''error.png'' (Inr buf) now s)))))
        \<and> eventsSince s (snd (failurePath e errMessage img now closing s))
            = [Sleep 3, Grab]
              @ flushOf e (sort_key date (fileList s @ [captured e ''error.png'' buf now s]))
              @ [CloseVscode]"
      using h failurePath_completes [OF ok, of errMessage] by simp
  qed
  show ?thesis unfolding r using a ev inv sl c d by blast
qed

theorem nonpositive_budget_fails_without_waiting_witness:
  "(- 1::int) \<le> 0
   \<and> fst (save exampleLinux (snd (screenShot exampleLinux ''error.png'' (Inr ''img'') 5
          freshCase))) = Inr ()
   \<and> retry exampleLinux (- 1) (\<lambda>w. Returns True) ''not found'' defaultGap (Inr ''img'') 5 None
         freshCase
       = (Inl (Error ''not found''),
          \<lparr>createType = Create, currentDir = ''case_10_00_00'',
            fileList = [\<lparr>fullPath =
                ''/repo/images-linux/CreateTypeSpecProject/case_10_00_00/error.png'',
              buffer = ''img'', date = 5\<rparr>],
            trace = [Sleep 3, Grab,
              MkdirSync ''/repo/images-linux/CreateTypeSpecProject/case_10_00_00'',
              WriteFileSync
                ''/repo/images-linux/CreateTypeSpecProject/case_10_00_00/0_error.png''
                ''img'',
              CloseVscode]\<rparr>)"
proof -
  have h: "(- 1::int) \<le> 0" by simp
  have ok: "fst (save exampleLinux (snd (screenShot exampleLinux ''error.png'' (Inr ''img'') 5
      freshCase))) = Inr ()"
    by (rule save_no_refusal) (simp add: exampleLinux_def)
  note t = nonpositive_budget_fails_without_waiting [OF h, of exampleLinux
      "\<lambda>w. Returns True" "''not found''" defaultGap "Inr ''img''" 5 None freshCase]
  have "retry exampleLinux (- 1) (\<lambda>w. Returns True) ''not found'' defaultGap (Inr ''img'') 5
      None freshCase
      = (Inl (Error ''not found''),
         emit CloseVscode (snd (save exampleLinux
           (snd (screenShot exampleLinux ''error.png'' (Inr ''img'') 5 freshCase)))))"
    using t ok by blast
  also have "\<dots> = failurePath exampleLinux ''not found'' (Inr ''img'') 5 None
      (afterAttempts defaultGap 0 freshCase)"
    using failurePath_completes [OF ok] by (simp add: afterAttempts_0)
  finally show ?thesis
    unfolding failurePath_freshCase using ok by simp
qed

section \<open>The launch fixture\<close>

text \<open>
  C5, as stated, fails: the launch function starts the host and obtains its first
  window, and writes \<open>settings.json\<close> after both. In a run that succeeds the launch
  comes before the write, and no write comes before the launch.
\<close>

theorem settings_written_before_launch_counterexample:
  "fst (launch exampleLinux exampleDriver ''log'' exampleOptions freshCase)
     = Inr \<lparr>page = 2, extensionDir = ''/tmp/typespec-automationX1/extensions''\<rparr>
   \<and> \<not> before isWrite isLaunch
         (eventsSince freshCase
            (snd (launch exampleLinux exampleDriver ''log'' exampleOptions freshCase)))
   \<and> before isLaunch isWrite
         (eventsSince freshCase
            (snd (launch exampleLinux exampleDriver ''log'' exampleOptions freshCase)))"
  by (simp add: launch_def Let_def eventsSince_def exampleDriver_def freshCase_def
      isWrite_def isLaunch_def exampleLinux_def path_join_def sep_def)

text \<open>
  C5, amended. The launch function writes the user-settings document after the host
  process has been launched and its first window obtained, as the last effect before
  the handle is returned: a successful call performs, in this order, \<open>mkdtemp\<close>, the
  launch, \<open>firstWindow\<close> and the write of \<open>settings.json\<close>. A call that fails writes
  nothing, and in no call does a write come before the launch.
\<close>

theorem settings_written_after_first_window:
  "(\<forall>ctx. fst (launch e d logPath opts s) = Inr ctx \<longrightarrow>
      (\<exists>tmp env args. eventsSince s (snd (launch e d logPath opts s))
         = [Mkdtemp tmp, ElectronLaunch (executablePath d) env args, FirstWindow,
            WriteFileSync (settingsPath e d) settingsJson]))
   \<and> (\<forall>err. fst (launch e d logPath opts s) = Inl err \<longrightarrow>
        \<not> list_ex isWrite (eventsSince s (snd (launch e d logPath opts s))))
   \<and> \<not> before isWrite isLaunch (eventsSince s (snd (launch e d logPath opts s)))"
proof -
  obtain tmp env args where
    ev: "eventsSince s (snd (launch e d logPath opts s)) =
       (case launchResult d of
          Inl err \<Rightarrow> [Mkdtemp tmp, ElectronLaunch (executablePath d) env args]
        | Inr app \<Rightarrow>
            (case firstWindowResult d of
               Inl err \<Rightarrow> [Mkdtemp tmp, ElectronLaunch (executablePath d) env args, FirstWindow]
             | Inr pg \<Rightarrow>
                 (case fsError e (WriteFileSync (settingsPath e d) settingsJson) of
                    Some err \<Rightarrow>
                      [Mkdtemp tmp, ElectronLaunch (executablePath d) env args, FirstWindow]
                  | None \<Rightarrow>
                      [Mkdtemp tmp, ElectronLaunch (executablePath d) env args, FirstWindow,
                       WriteFileSync (settingsPath e d) settingsJson])))"
    using launch_events by blast
  show ?thesis
    unfolding ev launch_result
    by (simp add: isWrite_def isLaunch_def split: sum.splits option.splits)
qed

theorem settings_written_after_first_window_witness:
  "fst (launch exampleLinux exampleDriver ''log'' exampleOptions freshCase)
     = Inr \<lparr>page = 2, extensionDir = ''/tmp/typespec-automationX1/extensions''\<rparr>
   \<and> (\<exists>tmp env args.
         eventsSince freshCase
           (snd (launch exampleLinux exampleDriver ''log'' exampleOptions freshCase))
         = [Mkdtemp tmp, ElectronLaunch ''/opt/vscode/code'' env args, FirstWindow,
            WriteFileSync ''/tmp/typespec-automationX1/user-data/User/settings.json''
              settingsJson])"
proof -
  have r: "fst (launch exampleLinux exampleDriver ''log'' exampleOptions freshCase)
     = Inr \<lparr>page = 2, extensionDir = ''/tmp/typespec-automationX1/extensions''\<rparr>"
    by (simp add: launch_result exampleDriver_def exampleLinux_def path_join_def sep_def)
  have p: "settingsPath exampleLinux exampleDriver
     = ''/tmp/typespec-automationX1/user-data/User/settings.json''"
    by (simp add: settingsPath_def exampleDriver_def exampleLinux_def path_join_def sep_def)
  have x: "executablePath exampleDriver = ''/opt/vscode/code''"
    by (simp add: exampleDriver_def)
  show ?thesis
    using settings_written_after_first_window
      [of exampleLinux exampleDriver "''log''" exampleOptions freshCase] r p x
    by simp
qed

text \<open>
  C9. The fixture is meant to close what it launched: it keeps a list \<open>teardowns\<close> and
  runs every entry after the test body. Nothing is ever added to the list, so the
  teardown phase does nothing: for a test body that launches once, the world after the
  fixture is the world after the launch, and the last effect of the whole fixture is the
  write of \<open>settings.json\<close>. No close of the host follows.
\<close>

theorem fixture_closes_nothing:
  "launchFixture exampleLinux exampleDriver ''log'' oneLaunch freshCase
     = snd (launch exampleLinux exampleDriver ''log'' exampleOptions freshCase)
   \<and> list_ex isLaunch
       (trace (launchFixture exampleLinux exampleDriver ''log'' oneLaunch freshCase))
   \<and> last (trace (launchFixture exampleLinux exampleDriver ''log'' oneLaunch freshCase))
       = WriteFileSync ''/tmp/typespec-automationX1/user-data/User/settings.json''
           settingsJson"
  by (simp add: launchFixture_def oneLaunch_def launch_def Let_def exampleDriver_def
      freshCase_def isLaunch_def exampleLinux_def path_join_def sep_def)

end
